theory Spec2Isabelle
  imports Complex_Main "HOL-Library.Char_ord" "HOL-Library.List_Lexorder"
begin

section \<open>Coordination detection and risk scoring of narrative-graph\<close>

text \<open>
  A shallow embedding of \<^verbatim>\<open>coordination/detector.py\<close>, \<^verbatim>\<open>risk/components.py\<close> and
  \<^verbatim>\<open>risk/engine.py\<close>. Arithmetic is that of the reals; where the program rounds a value
  to four decimals or compares the weighted sum with a risk threshold, the value is the
  binary float that the program has computed, which the parameter \<open>fl\<close> supplies (see
  below). A \<^verbatim>\<open>datetime\<close> is the number of seconds since the epoch, so that
  \<^verbatim>\<open>(t1 - t2).total_seconds()\<close> is \<open>t1 - t2\<close>.
  A Python \<^verbatim>\<open>set\<close> is a duplicate-free list; its iteration order is unspecified in Python and
  the theorems below speak about the elements only. A \<^verbatim>\<open>dict\<close> is an association list in
  insertion order.
\<close>

subsection \<open>Python helpers\<close>

text \<open>
  \<^verbatim>\<open>round(x, 4)\<close> of a float \<open>x\<close>: the multiple of \<open>1/10000\<close> nearest to the value of \<open>x\<close>,
  ties to the even neighbour.
\<close>

definition py_round4 :: "real \<Rightarrow> real" where
  "py_round4 x =
     (let y = x * 10000; f = \<lfloor>y\<rfloor>; r = y - of_int f
      in of_int (if r < 1 / 2 then f else if 1 / 2 < r then f + 1
                 else if even f then f else f + 1) / 10000)"

text \<open>
  Binary floating point. The program computes with floats, and the float it holds for a
  quantity differs a little from the exact value. The difference decides the outcome
  where a value is rounded to four decimals (near a tie) or compared with a threshold
  (near the threshold). The functions of \<^verbatim>\<open>risk/components.py\<close> and \<^verbatim>\<open>risk/engine.py\<close>
  therefore take a parameter \<open>fl\<close>: \<open>fl x\<close> is the float that the program has computed for
  the exact value \<open>x\<close>. Nothing is fixed about \<open>fl\<close> but its accuracy, \<open>float_accurate\<close>, with
  a tolerance far above the error of double precision. The float of a value depends on
  how the program came to it, so \<open>fl\<close> may differ from one input to the next: the theorems
  hold for every accurate \<open>fl\<close>, hence for the one that the program realises at the input
  at hand. Three instances are \<open>exact_arithmetic\<close>, the float without error, and
  \<open>float_above\<close> and \<open>float_below\<close>, which err by \<open>1/10^12\<close> to either side.
\<close>

definition float_tolerance :: real where
  "float_tolerance = 1 / 10 ^ 9"

definition float_accurate :: "(real \<Rightarrow> real) \<Rightarrow> bool" where
  "float_accurate fl = (\<forall>x. \<bar>fl x - x\<bar> \<le> float_tolerance * max 1 \<bar>x\<bar>)"

definition exact_arithmetic :: "real \<Rightarrow> real" where
  "exact_arithmetic x = x"

definition float_above :: "real \<Rightarrow> real" where
  "float_above x = x + 1 / 10 ^ 12"

definition float_below :: "real \<Rightarrow> real" where
  "float_below x = x - 1 / 10 ^ 12"

text \<open>\<^verbatim>\<open>d[k].append(v)\<close> on a \<^verbatim>\<open>defaultdict(list)\<close>: a new key goes to the end.\<close>

fun dict_append :: "'k \<Rightarrow> 'v \<Rightarrow> ('k \<times> 'v list) list \<Rightarrow> ('k \<times> 'v list) list" where
  "dict_append k v [] = [(k, [v])]"
| "dict_append k v ((k', vs) # d) =
     (if k = k' then (k', vs @ [v]) # d else (k', vs) # dict_append k v d)"

text \<open>\<^verbatim>\<open>set.add\<close> and \<^verbatim>\<open>set.update\<close> on a duplicate-free list.\<close>

definition set_add :: "'a \<Rightarrow> 'a list \<Rightarrow> 'a list" where
  "set_add x s = (if x \<in> set s then s else s @ [x])"

definition set_update :: "'a list \<Rightarrow> 'a list \<Rightarrow> 'a list" where
  "set_update s xs = foldl (\<lambda>acc x. set_add x acc) s xs"

text \<open>\<^verbatim>\<open>s.endswith(t)\<close>.\<close>

definition endswith :: "string \<Rightarrow> string \<Rightarrow> bool" where
  "endswith s t = (length t \<le> length s \<and> drop (length s - length t) s = t)"

text \<open>
  \<^verbatim>\<open>str.lower\<close>, \<^verbatim>\<open>str.isalnum\<close> and the separators of \<^verbatim>\<open>str.split()\<close>, on ASCII text.
\<close>

definition lower_char :: "char \<Rightarrow> char" where
  "lower_char c =
     (case map_of (zip ''ABCDEFGHIJKLMNOPQRSTUVWXYZ'' ''abcdefghijklmnopqrstuvwxyz'') c of
        Some l \<Rightarrow> l | None \<Rightarrow> c)"

definition is_alnum :: "char \<Rightarrow> bool" where
  "is_alnum c =
     (c \<in> set ''abcdefghijklmnopqrstuvwxyzABCDEFGHIJKLMNOPQRSTUVWXYZ0123456789'')"

definition is_space :: "char \<Rightarrow> bool" where
  "is_space c = (of_char c \<in> {9, 10, 11, 12, 13, 28, 29, 30, 31, 32 :: nat})"

text \<open>\<^verbatim>\<open>text.split()\<close>: the maximal runs of non-separators; \<open>w\<close> is the run being read.\<close>

fun split_ws :: "string \<Rightarrow> string \<Rightarrow> string list" where
  "split_ws w [] = (if w = [] then [] else [w])"
| "split_ws w (c # cs) =
     (if is_space c then (if w = [] then split_ws [] cs else w # split_ws [] cs)
      else split_ws (w @ [c]) cs)"

subsection \<open>Records of \<^verbatim>\<open>ingestion/schemas.py\<close>\<close>

record post =
  post_id :: string
  timestamp :: real
  author_id :: string
  post_text :: string
  urls :: "string list"
  domains :: "string list"
  hashtags :: "string list"
  narrative_id :: "string option"

record narrative_metadata =
  nm_id :: string
  author_count :: int

record coordination_evidence =
  post_ids :: "string list"
  shared_domains :: "string list"
  shared_hashtags :: "string list"
  text_similarity :: "real option"
  time_delta_seconds :: "real option"

record coordinated_pair =
  author1_id :: string
  author2_id :: string
  cp_score :: real
  evidence :: coordination_evidence
  cp_narrative_id :: "string option"

record coordinated_group =
  cg_id :: string
  author_ids :: "string list"
  cg_score :: real
  cg_narrative_ids :: "string list"
  cg_size :: int

datatype risk_level = LOW | MEDIUM | HIGH

record risk_components =
  velocity :: real
  coordination_density :: real
  bot_score :: real
  foreign_domain_ratio :: real
  toxicity :: real

text \<open>
  A reason string of the engine, kept as its parts: the factor, the component value and
  its weighted contribution (the source formats both with two decimals).
\<close>

datatype reason =
    HighVelocity real real
  | CoordinatedBehavior real real
  | BotActivity real real
  | ForeignDomains real real
  | ToxicContent real real
  | NoSignificantFactors

record narrative_risk =
  nr_narrative_id :: string
  risk_score :: real
  nr_risk_level :: risk_level
  components :: risk_components
  reasons :: "reason list"

subsection \<open>Settings of \<^verbatim>\<open>config.py\<close>\<close>

record coordination_config =
  time_window_minutes :: int
  similarity_threshold :: real
  min_group_size :: int
  shared_domain_weight :: real
  shared_hashtag_weight :: real
  text_similarity_weight :: real

record risk_weights_config =
  w_velocity :: real
  w_coordination_density :: real
  w_bot_score :: real
  w_foreign_domain_ratio :: real
  w_toxicity :: real

record risk_thresholds_config =
  th_low :: real
  th_medium :: real
  th_high :: real

record risk_config =
  weights :: risk_weights_config
  thresholds :: risk_thresholds_config
  foreign_tlds :: "string list"

record settings =
  coordination :: coordination_config
  risk :: risk_config

definition default_settings :: settings where
  "default_settings =
     \<lparr>coordination =
        \<lparr>time_window_minutes = 60, similarity_threshold = 0.85, min_group_size = 3,
         shared_domain_weight = 0.3, shared_hashtag_weight = 0.2,
         text_similarity_weight = 0.5\<rparr>,
      risk =
        \<lparr>weights =
           \<lparr>w_velocity = 0.25, w_coordination_density = 0.30, w_bot_score = 0.20,
            w_foreign_domain_ratio = 0.15, w_toxicity = 0.10\<rparr>,
         thresholds = \<lparr>th_low = 0.3, th_medium = 0.6, th_high = 0.8\<rparr>,
         foreign_tlds = [''.ru'', ''.cn'', ''.ir'']\<rparr>\<rparr>"

subsection \<open>Risk components (\<^verbatim>\<open>risk/components.py\<close>)\<close>

text \<open>
  The burst loop of \<^verbatim>\<open>calculate_velocity_score\<close>: at position \<open>i\<close> of the sorted
  timestamps it counts the entries of \<^verbatim>\<open>timestamps[i:]\<close> at most 15 minutes later.
\<close>

fun burst_count :: "real list \<Rightarrow> nat" where
  "burst_count [] = 0"
| "burst_count (ts # rest) =
     (let window_posts = length (filter (\<lambda>other_ts. other_ts - ts \<le> 900) (ts # rest))
      in (if 5 \<le> window_posts then 1 else 0) + burst_count rest)"

definition calculate_velocity_score ::
  "(real \<Rightarrow> real) \<Rightarrow> post list \<Rightarrow> narrative_metadata \<Rightarrow> real" where
  "calculate_velocity_score fl posts narrative =
     (if length posts < 2 then 0
      else
        let timestamps = sort (map timestamp posts);
            time_span = last timestamps - hd timestamps
        in if time_span \<le> 0 then 1
           else
             let hours = time_span / 3600;
                 posts_per_hour = real (length posts) / hours;
                 score = min (posts_per_hour / 10) 1;
                 burst_ratio =
                   (if timestamps \<noteq> []
                    then real (burst_count timestamps) / real (length timestamps) else 0);
                 score = min (score + burst_ratio * 0.2) 1
             in py_round4 (fl score))"

text \<open>The loop over the relevant groups: the set of coordinated authors and the score total.\<close>

definition coordination_step ::
  "string list \<times> real \<Rightarrow> coordinated_group \<Rightarrow> string list \<times> real" where
  "coordination_step acc g =
     (set_update (fst acc) (author_ids g), snd acc + cg_score g * real_of_int (cg_size g))"

definition calculate_coordination_score ::
  "(real \<Rightarrow> real) \<Rightarrow> string \<Rightarrow> coordinated_group list \<Rightarrow> int \<Rightarrow> real" where
  "calculate_coordination_score fl nid groups total_authors =
     (if total_authors \<le> 1 then 0
      else
        let relevant_groups = filter (\<lambda>g. nid \<in> set (cg_narrative_ids g)) groups
        in if relevant_groups = [] then 0
           else
             let acc = foldl coordination_step ([], 0) relevant_groups;
                 coordinated_authors = fst acc;
                 total_group_score = snd acc;
                 coordination_ratio =
                   real (length coordinated_authors) / real_of_int total_authors;
                 avg_group_score =
                   (if coordinated_authors \<noteq> []
                    then total_group_score / real (length coordinated_authors) else 0);
                 score = coordination_ratio * 0.6 + avg_group_score * 0.4
             in py_round4 (fl (min score 1)))"

text \<open>
  \<^verbatim>\<open>calculate_foreign_domain_score\<close>: \<open>tlds_arg\<close> is the optional argument, replaced by the
  configured list when it is \<^verbatim>\<open>None\<close> or empty.
\<close>

definition foreign_domain_step ::
  "string list \<Rightarrow> string list \<times> string list \<Rightarrow> string \<Rightarrow> string list \<times> string list" where
  "foreign_domain_step tlds acc domain =
     (set_add domain (fst acc),
      if list_ex (\<lambda>tld. endswith domain tld) tlds then set_add domain (snd acc) else snd acc)"

definition calculate_foreign_domain_score ::
  "(real \<Rightarrow> real) \<Rightarrow> settings \<Rightarrow> post list \<Rightarrow> string list option \<Rightarrow> real" where
  "calculate_foreign_domain_score fl st posts tlds_arg =
     (let tlds = (case tlds_arg of None \<Rightarrow> foreign_tlds (risk st)
                  | Some l \<Rightarrow> if l = [] then foreign_tlds (risk st) else l)
      in if posts = [] then 0
         else
           let acc = foldl (\<lambda>acc p. foldl (foreign_domain_step tlds) acc (domains p))
                       ([], []) posts;
               all_domains = fst acc;
               foreign_domains = snd acc
           in if all_domains = [] then 0
              else py_round4 (fl (real (length foreign_domains) / real (length all_domains))))"

text \<open>The indicators of one author with at least two posts, in \<^verbatim>\<open>calculate_bot_score\<close>.\<close>

fun intervals_of :: "real list \<Rightarrow> real list" where
  "intervals_of (a # b # ts) = (b - a) # intervals_of (b # ts)"
| "intervals_of ts = []"

definition author_indicators :: "post list \<Rightarrow> real" where
  "author_indicators author_posts_list =
     (let timestamps = sort (map timestamp author_posts_list);
          time_span = last timestamps - hd timestamps;
          i1 = (if 0 < time_span \<and>
                   20 < real (length author_posts_list) / (time_span / 3600)
                then 0.3 else 0);
          texts = map post_text author_posts_list;
          i2 = (if 3 \<le> length texts \<and>
                   real (length (remdups texts)) / real (length texts) < 0.5
                then 0.3 else 0);
          intervals = intervals_of timestamps;
          i3 = (if 3 \<le> length timestamps \<and> intervals \<noteq> [] then
                  (let avg_interval = sum_list intervals / real (length intervals);
                       variance = sum_list (map (\<lambda>i. (i - avg_interval)\<^sup>2) intervals)
                                    / real (length intervals)
                   in if 0 < avg_interval \<and> variance / avg_interval < 0.1 then 0.2 else 0)
                else 0);
          url_ratio = real (length (filter (\<lambda>p. urls p \<noteq> []) author_posts_list))
                        / real (length author_posts_list);
          i4 = (if 0.8 < url_ratio then 0.2 else 0)
      in min (i1 + i2 + i3 + i4) 1)"

definition calculate_bot_score :: "(real \<Rightarrow> real) \<Rightarrow> post list \<Rightarrow> real" where
  "calculate_bot_score fl posts =
     (if posts = [] then 0
      else
        let author_posts = foldl (\<lambda>d p. dict_append (author_id p) p d) [] posts;
            bot_indicators =
              map (\<lambda>(a, ps). author_indicators ps)
                (filter (\<lambda>(a, ps). \<not> length ps < 2) author_posts)
        in if bot_indicators = [] then 0
           else py_round4 (fl (sum_list bot_indicators / real (length bot_indicators))))"

definition toxic_keywords :: "string list" where
  "toxic_keywords =
     [''hate'', ''kill'', ''die'', ''attack'', ''destroy'', ''enemy'', ''threat'',
      ''dangerous'', ''evil'', ''corrupt'', ''conspiracy'', ''hoax'', ''fake'',
      ''propaganda'', ''lies'', ''traitor'', ''invasion'', ''war'']"

definition toxicity_step :: "nat \<times> nat \<Rightarrow> post \<Rightarrow> nat \<times> nat" where
  "toxicity_step acc p =
     (let words = split_ws [] (map lower_char (post_text p))
      in (fst acc + length (filter (\<lambda>word. filter is_alnum word \<in> set toxic_keywords) words),
          snd acc + length words))"

definition calculate_toxicity_score :: "(real \<Rightarrow> real) \<Rightarrow> post list \<Rightarrow> real" where
  "calculate_toxicity_score fl posts =
     (if posts = [] then 0
      else
        let acc = foldl toxicity_step (0, 0) posts;
            toxic_count = fst acc;
            total_words = snd acc
        in if total_words = 0 then 0
           else
             let ratio = real toxic_count / real total_words;
                 score = min (ratio / 0.05) 1
             in py_round4 (fl score))"

subsection \<open>Risk engine (\<^verbatim>\<open>risk/engine.py\<close>)\<close>

definition generate_reasons :: "risk_components \<Rightarrow> risk_weights_config \<Rightarrow> reason list" where
  "generate_reasons c w =
     (let threshold = 0.3;
          reasons =
            (if threshold \<le> velocity c
             then [HighVelocity (velocity c) (w_velocity w * velocity c)] else []) @
            (if threshold \<le> coordination_density c
             then [CoordinatedBehavior (coordination_density c)
                     (w_coordination_density w * coordination_density c)] else []) @
            (if threshold \<le> bot_score c
             then [BotActivity (bot_score c) (w_bot_score w * bot_score c)] else []) @
            (if threshold \<le> foreign_domain_ratio c
             then [ForeignDomains (foreign_domain_ratio c)
                     (w_foreign_domain_ratio w * foreign_domain_ratio c)] else []) @
            (if threshold \<le> toxicity c
             then [ToxicContent (toxicity c) (w_toxicity w * toxicity c)] else [])
      in if reasons = [] then [NoSignificantFactors] else reasons)"

definition risk_components_of ::
  "(real \<Rightarrow> real) \<Rightarrow> settings \<Rightarrow> narrative_metadata \<Rightarrow> post list \<Rightarrow> coordinated_group list
     \<Rightarrow> risk_components" where
  "risk_components_of fl st narrative posts groups =
     \<lparr>velocity = calculate_velocity_score fl posts narrative,
      coordination_density =
        calculate_coordination_score fl (nm_id narrative) groups (author_count narrative),
      bot_score = calculate_bot_score fl posts,
      foreign_domain_ratio = calculate_foreign_domain_score fl st posts None,
      toxicity = calculate_toxicity_score fl posts\<rparr>"

text \<open>
  The weighted sum of the engine, before it is rounded. The engine holds the float
  \<open>fl (weighted_score w c)\<close> in its variable \<^verbatim>\<open>risk_score\<close>: it compares that float with the
  thresholds and rounds it for the record.
\<close>

definition weighted_score :: "risk_weights_config \<Rightarrow> risk_components \<Rightarrow> real" where
  "weighted_score w c =
     w_velocity w * velocity c
     + w_coordination_density w * coordination_density c
     + w_bot_score w * bot_score c
     + w_foreign_domain_ratio w * foreign_domain_ratio c
     + w_toxicity w * toxicity c"

definition calculate_narrative_risk ::
  "(real \<Rightarrow> real) \<Rightarrow> settings \<Rightarrow> narrative_metadata \<Rightarrow> post list \<Rightarrow> coordinated_group list
     \<Rightarrow> narrative_risk" where
  "calculate_narrative_risk fl st narrative posts groups =
     (let w = weights (risk st);
          th = thresholds (risk st);
          c = risk_components_of fl st narrative posts groups;
          score = fl (weighted_score w c);
          level = (if th_high th \<le> score then HIGH
                   else if th_medium th \<le> score then MEDIUM else LOW)
      in \<lparr>nr_narrative_id = nm_id narrative,
          risk_score = py_round4 score,
          nr_risk_level = level,
          components = c,
          reasons = generate_reasons c w\<rparr>)"



subsection \<open>Coordination detector (\<^verbatim>\<open>coordination/detector.py\<close>)\<close>

text \<open>
  The detector after \<^verbatim>\<open>__init__\<close>: the time window in seconds
  (\<^verbatim>\<open>timedelta(minutes=m).total_seconds()\<close>), the threshold, the minimum group size and the
  three weights. The database connection plays no part in the results and is left out.
\<close>

record detector =
  time_window :: real
  det_similarity_threshold :: real
  det_min_group_size :: int
  text_weight :: real
  domain_weight :: real
  hashtag_weight :: real

text \<open>\<^verbatim>\<open>arg or default\<close> for an optional number: \<^verbatim>\<open>None\<close> and zero are both falsy.\<close>

definition py_or :: "'a::zero option \<Rightarrow> 'a \<Rightarrow> 'a" where
  "py_or arg dflt = (case arg of None \<Rightarrow> dflt | Some v \<Rightarrow> if v = 0 then dflt else v)"

definition detector_init ::
  "settings \<Rightarrow> int option \<Rightarrow> real option \<Rightarrow> int option \<Rightarrow> detector" where
  "detector_init st time_window_minutes_arg similarity_threshold_arg min_group_size_arg =
     \<lparr>time_window =
        60 * real_of_int
               (py_or time_window_minutes_arg (time_window_minutes (coordination st))),
      det_similarity_threshold =
        py_or similarity_threshold_arg (similarity_threshold (coordination st)),
      det_min_group_size = py_or min_group_size_arg (min_group_size (coordination st)),
      text_weight = text_similarity_weight (coordination st),
      domain_weight = shared_domain_weight (coordination st),
      hashtag_weight = shared_hashtag_weight (coordination st)\<rparr>"

text \<open>
  The embedding matrix enters the detector only through
  \<^verbatim>\<open>cosine_similarity(embeddings[idx1], embeddings[idx2])\<close>, a function of scikit-learn.
  The model takes that table of similarities as the argument: \<open>Some cs\<close> with \<open>cs idx1 idx2\<close>
  the similarity of rows \<open>idx1\<close> and \<open>idx2\<close>, or \<open>None\<close> when no embeddings are supplied.
\<close>

type_synonym embeddings = "(nat \<Rightarrow> nat \<Rightarrow> real) option"

definition empty_evidence :: coordination_evidence where
  "empty_evidence =
     \<lparr>post_ids = [], shared_domains = [], shared_hashtags = [],
      text_similarity = None, time_delta_seconds = None\<rparr>"

text \<open>\<^verbatim>\<open>set(xs) & set(ys)\<close> and \<^verbatim>\<open>len(set(xs) | set(ys))\<close>.\<close>

definition set_inter :: "string list \<Rightarrow> string list \<Rightarrow> string list" where
  "set_inter xs ys = filter (\<lambda>x. x \<in> set ys) (remdups xs)"

definition union_size :: "string list \<Rightarrow> string list \<Rightarrow> nat" where
  "union_size xs ys = length (remdups (xs @ ys))"

text \<open>\<^verbatim>\<open>max(scores)\<close>; on the empty list Python raises, and the detector never calls it there.\<close>

fun py_max :: "real list \<Rightarrow> real" where
  "py_max [] = 0"
| "py_max (x # xs) = fold max xs x"

text \<open>The body of the two nested loops of \<^verbatim>\<open>_calculate_pair_score\<close> for one post pair.\<close>

definition pair_score_of :: "detector \<Rightarrow> embeddings \<Rightarrow> post \<times> nat \<Rightarrow> post \<times> nat \<Rightarrow> real" where
  "pair_score_of d emb p1 p2 =
     (let text_sim = (case emb of None \<Rightarrow> 0 | Some cs \<Rightarrow> cs (snd p1) (snd p2));
          domain_sim =
            real (length (set_inter (domains (fst p1)) (domains (fst p2))))
              / real (max (union_size (domains (fst p1)) (domains (fst p2))) 1);
          hashtag_sim =
            real (length (set_inter (hashtags (fst p1)) (hashtags (fst p2))))
              / real (max (union_size (hashtags (fst p1)) (hashtags (fst p2))) 1)
      in text_weight d * text_sim + domain_weight d * domain_sim
           + hashtag_weight d * hashtag_sim)"

definition pair_step ::
  "detector \<Rightarrow> embeddings \<Rightarrow> post \<times> nat \<Rightarrow> coordination_evidence \<times> real list
     \<Rightarrow> post \<times> nat \<Rightarrow> coordination_evidence \<times> real list" where
  "pair_step d emb p1 acc p2 =
     (let time_diff = \<bar>timestamp (fst p1) - timestamp (fst p2)\<bar>
      in if time_diff \<le> time_window d then
           ((fst acc)
              \<lparr>post_ids := post_ids (fst acc) @ [post_id (fst p1), post_id (fst p2)],
               time_delta_seconds := Some time_diff,
               shared_domains :=
                 shared_domains (fst acc) @ set_inter (domains (fst p1)) (domains (fst p2)),
               shared_hashtags :=
                 shared_hashtags (fst acc)
                   @ set_inter (hashtags (fst p1)) (hashtags (fst p2))\<rparr>,
            snd acc @ [pair_score_of d emb p1 p2])
         else acc)"

definition calculate_pair_score ::
  "detector \<Rightarrow> (post \<times> nat) list \<Rightarrow> (post \<times> nat) list \<Rightarrow> embeddings
     \<Rightarrow> real \<times> coordination_evidence" where
  "calculate_pair_score d posts1 posts2 emb =
     (let acc = foldl (\<lambda>acc p1. foldl (pair_step d emb p1) acc posts2)
                  (empty_evidence, []) posts1;
          ev = fst acc;
          scores = snd acc
      in if scores = [] then (0, ev)
         else (py_max scores,
               ev\<lparr>post_ids := remdups (post_ids ev),
                  shared_domains := remdups (shared_domains ev),
                  shared_hashtags := remdups (shared_hashtags ev),
                  text_similarity := Some (py_max scores)\<rparr>))"

text \<open>\<^verbatim>\<open>d[k]\<close> on a \<^verbatim>\<open>defaultdict\<close>: the empty collection for a missing key.\<close>

definition dict_get :: "('k \<times> 'v list) list \<Rightarrow> 'k \<Rightarrow> 'v list" where
  "dict_get d k = (case map_of d k of None \<Rightarrow> [] | Some v \<Rightarrow> v)"




subsection \<open>Group builder (\<^verbatim>\<open>_build_groups\<close>)\<close>

text \<open>\<^verbatim>\<open>graph[a].add(b)\<close> on a \<^verbatim>\<open>defaultdict(set)\<close>.\<close>

fun graph_add ::
  "string \<Rightarrow> string \<Rightarrow> (string \<times> string list) list \<Rightarrow> (string \<times> string list) list" where
  "graph_add a b [] = [(a, [b])]"
| "graph_add a b ((k, ns) # g) =
     (if a = k then (k, set_add b ns) # g else (k, ns) # graph_add a b g)"

text \<open>\<^verbatim>\<open>tuple(sorted([a, b]))\<close>, in the lexicographic order of Python strings.\<close>

definition pair_key :: "string \<Rightarrow> string \<Rightarrow> string \<times> string" where
  "pair_key a b = (if a \<le> b then (a, b) else (b, a))"

definition graph_step ::
  "(string \<times> string list) list \<times> (string \<times> string \<rightharpoonup> coordinated_pair) \<Rightarrow> coordinated_pair
     \<Rightarrow> (string \<times> string list) list \<times> (string \<times> string \<rightharpoonup> coordinated_pair)" where
  "graph_step acc pair =
     (graph_add (author2_id pair) (author1_id pair)
        (graph_add (author1_id pair) (author2_id pair) (fst acc)),
      (snd acc)(pair_key (author1_id pair) (author2_id pair) \<mapsto> pair))"

definition build_graph ::
  "coordinated_pair list
     \<Rightarrow> (string \<times> string list) list \<times> (string \<times> string \<rightharpoonup> coordinated_pair)" where
  "build_graph pairs = foldl graph_step ([], Map.empty) pairs"

text \<open>
  The \<^verbatim>\<open>while queue:\<close> loop. It ends because every round either drops an author that is
  already visited from the queue or visits a new one, and only authors of the queue and
  of the adjacency sets are ever visited.
\<close>

function bfs ::
  "(string \<times> string list) list \<Rightarrow> string list \<Rightarrow> string set \<Rightarrow> string list
     \<Rightarrow> string set \<times> string list" where
  "bfs graph [] visited component = (visited, component)"
| "bfs graph (author # queue) visited component =
     (if author \<in> visited then bfs graph queue visited component
      else bfs graph
             (queue @ filter (\<lambda>neighbor. neighbor \<notin> insert author visited)
                        (dict_get graph author))
             (insert author visited) (component @ [author]))"
  by pat_completeness auto
termination
proof (relation "measures
    [\<lambda>(g, q, v, c). card ((set q \<union> \<Union> (set ` snd ` set g)) - v),
     \<lambda>(g, q, v, c). length q]")
  show "wf (measures
    [\<lambda>(g, q, v, c). card ((set q \<union> \<Union> (set ` snd ` set g)) - v),
     \<lambda>(g :: (string \<times> string list) list, q :: string list, v :: string set,
        c :: string list). length q])"
    by simp
next
  fix graph :: "(string \<times> string list) list" and author :: string
    and queue :: "string list" and visited :: "string set" and component :: "string list"
  assume "author \<in> visited"
  then have "(set (author # queue) \<union> \<Union> (set ` snd ` set graph)) - visited
      = (set queue \<union> \<Union> (set ` snd ` set graph)) - visited"
    by auto
  then show "((graph, queue, visited, component), graph, author # queue, visited, component)
      \<in> measures
         [\<lambda>(g, q, v, c). card ((set q \<union> \<Union> (set ` snd ` set g)) - v),
          \<lambda>(g, q, v, c). length q]"
    by simp
next
  fix graph :: "(string \<times> string list) list" and author :: string
    and queue :: "string list" and visited :: "string set" and component :: "string list"
  assume nv: "author \<notin> visited"
  let ?U = "\<Union> (set ` snd ` set graph)"
  let ?q = "queue @ filter (\<lambda>neighbor. neighbor \<notin> insert author visited)
                     (dict_get graph author)"
  have nb: "set (dict_get graph author) \<subseteq> ?U"
  proof
    fix x assume "x \<in> set (dict_get graph author)"
    then obtain ns where "map_of graph author = Some ns" and "x \<in> set ns"
      by (cases "map_of graph author") (auto simp: dict_get_def)
    then have "(author, ns) \<in> set graph" and "x \<in> set (snd (author, ns))"
      by (auto dest: map_of_SomeD)
    then show "x \<in> ?U" by blast
  qed
  have "(set ?q \<union> ?U) - insert author visited
      \<subseteq> ((set (author # queue) \<union> ?U) - visited) - {author}"
    using nb by auto
  moreover have "author \<in> (set (author # queue) \<union> ?U) - visited"
    using nv by simp
  ultimately have "(set ?q \<union> ?U) - insert author visited
      \<subset> (set (author # queue) \<union> ?U) - visited"
    by blast
  moreover have "finite ((set (author # queue) \<union> ?U) - visited)"
    by simp
  ultimately have "card ((set ?q \<union> ?U) - insert author visited)
      < card ((set (author # queue) \<union> ?U) - visited)"
    by (rule psubset_card_mono [rotated])
  then show "((graph, ?q, insert author visited, component @ [author]),
       graph, author # queue, visited, component)
      \<in> measures
         [\<lambda>(g, q, v, c). card ((set q \<union> \<Union> (set ` snd ` set g)) - v),
          \<lambda>(g, q, v, c). length q]"
    by simp
qed

declare bfs.simps [simp del]

text \<open>
  The pairs \<^verbatim>\<open>(a1, a2)\<close> of the loops over \<^verbatim>\<open>enumerate(component)\<close> and
  \<^verbatim>\<open>component[i + 1:]\<close>, in the order the loops visit them.
\<close>

fun component_pairs :: "string list \<Rightarrow> (string \<times> string) list" where
  "component_pairs [] = []"
| "component_pairs (a1 # rest) = map (Pair a1) rest @ component_pairs rest"

definition group_step ::
  "(string \<times> string \<rightharpoonup> coordinated_pair) \<Rightarrow> real list \<times> string list \<Rightarrow> string \<times> string
     \<Rightarrow> real list \<times> string list" where
  "group_step pair_scores acc aa =
     (case pair_scores (pair_key (fst aa) (snd aa)) of
        None \<Rightarrow> acc
      | Some pair \<Rightarrow>
          (fst acc @ [cp_score pair],
           case cp_narrative_id pair of
             None \<Rightarrow> snd acc
           | Some n \<Rightarrow> if n \<noteq> [] then set_add n (snd acc) else snd acc))"

text \<open>\<^verbatim>\<open>f"coord_group_{group_id:04d}"\<close>.\<close>

fun digits :: "nat \<Rightarrow> string" where
  "digits n =
     (if n < 10 then [''0123456789'' ! n]
      else digits (n div 10) @ [''0123456789'' ! (n mod 10)])"

declare digits.simps [simp del]

definition group_name :: "nat \<Rightarrow> string" where
  "group_name group_id =
     ''coord_group_'' @ replicate (4 - length (digits group_id)) CHR ''0'' @ digits group_id"

text \<open>
  One round of \<^verbatim>\<open>for start_author in graph\<close>; the state is the visited set, the groups
  so far and \<^verbatim>\<open>group_id\<close>. The summary string of a group is not part of the model.
\<close>

definition make_group ::
  "(string \<times> string \<rightharpoonup> coordinated_pair) \<Rightarrow> nat \<Rightarrow> string list \<Rightarrow> coordinated_group" where
  "make_group pair_scores group_id component =
     (let acc = foldl (group_step pair_scores) ([], []) (component_pairs component);
          group_scores = fst acc;
          narrative_ids = snd acc;
          avg_score = (if group_scores \<noteq> []
                       then sum_list group_scores / real (length group_scores) else 0)
      in \<lparr>cg_id = group_name group_id, author_ids = component, cg_score = avg_score,
          cg_narrative_ids = narrative_ids, cg_size = int (length component)\<rparr>)"

definition component_step ::
  "detector \<Rightarrow> (string \<times> string list) list \<Rightarrow> (string \<times> string \<rightharpoonup> coordinated_pair)
     \<Rightarrow> string set \<times> coordinated_group list \<times> nat \<Rightarrow> string
     \<Rightarrow> string set \<times> coordinated_group list \<times> nat" where
  "component_step d graph pair_scores st start_author =
     (case st of (visited, groups, group_id) \<Rightarrow>
        if start_author \<in> visited then st
        else
          (case bfs graph [start_author] visited [] of (visited', component) \<Rightarrow>
             if det_min_group_size d \<le> int (length component)
             then (visited', groups @ [make_group pair_scores group_id component],
                   group_id + 1)
             else (visited', groups, group_id)))"

definition build_groups :: "detector \<Rightarrow> coordinated_pair list \<Rightarrow> coordinated_group list" where
  "build_groups d pairs =
     (if pairs = [] then []
      else
        (case build_graph pairs of (graph, pair_scores) \<Rightarrow>
           (case foldl (component_step d graph pair_scores) ({}, [], 0) (map fst graph) of
              (visited, groups, group_id) \<Rightarrow> sort_key (\<lambda>g. - cg_score g) groups)))"



subsection \<open>Sample inputs\<close>

text \<open>Two concrete narratives whose weighted sums lie just below a threshold.\<close>

definition sample_post :: "string \<Rightarrow> string \<Rightarrow> string \<Rightarrow> string list \<Rightarrow> string \<Rightarrow> post" where
  "sample_post i a t us dm =
     \<lparr>post_id = i, timestamp = 0, author_id = a, post_text = t, urls = us,
      domains = [dm], hashtags = [], narrative_id = Some ''n1''\<rparr>"

definition sample_group :: coordinated_group where
  "sample_group =
     \<lparr>cg_id = ''coord_group_0000'', author_ids = [''a1'', ''a2'', ''a3''], cg_score = 1,
      cg_narrative_ids = [''n1''], cg_size = 3\<rparr>"

definition sample_narrative :: narrative_metadata where
  "sample_narrative = \<lparr>nm_id = ''n1'', author_count = 3\<rparr>"

definition posts_near_high :: "post list" where
  "posts_near_high =
     [sample_post ''1'' ''a1'' ''hate'' [''http://a.com/x''] ''a.com'',
      sample_post ''2'' ''a1'' ''hate'' [''http://b.org/x''] ''b.org'',
      sample_post ''3'' ''a1'' ''hate'' [''http://c.ru/x''] ''c.ru'']"

definition posts_near_medium :: "post list" where
  "posts_near_medium =
     [sample_post ''1'' ''a1'' ''hello'' [] ''a.com'',
      sample_post ''2'' ''a2'' ''hello'' [] ''b.org'',
      sample_post ''3'' ''a3'' ''hello'' [] ''c.ru'']"

text \<open>A narrative whose exact weighted sum is the high threshold, 0.8.\<close>

definition posts_at_high :: "post list" where
  "posts_at_high =
     [sample_post ''1'' ''a1'' ''hello'' [''http://a.ru/x''] ''a.ru'',
      sample_post ''2'' ''a1'' ''hello'' [''http://b.ru/x''] ''b.ru'',
      sample_post ''3'' ''a1'' ''hello'' [''http://c.ru/x''] ''c.ru'']"

subsection \<open>The velocity score as the specification words it\<close>

text \<open>
  The burst ratio in the words of the specification: the fraction of posts that have at
  least five posts, themselves included, in the 15 minutes that start at their timestamp.
\<close>

definition claimed_burst_ratio :: "post list \<Rightarrow> real" where
  "claimed_burst_ratio posts =
     real (length (filter
        (\<lambda>p. 5 \<le> length (filter (\<lambda>q. timestamp p \<le> timestamp q
                                       \<and> timestamp q \<le> timestamp p + 900) posts))
        posts))
       / real (length posts)"

definition time_span_of :: "post list \<Rightarrow> real" where
  "time_span_of posts = Max (timestamp ` set posts) - Min (timestamp ` set posts)"

definition velocity_as_claimed :: "(real \<Rightarrow> real) \<Rightarrow> post list \<Rightarrow> real" where
  "velocity_as_claimed fl posts =
     (if length posts < 2 then 0
      else if time_span_of posts = 0 then 1
      else py_round4
             (fl (min (min (real (length posts) / (time_span_of posts / 3600) / 10) 1
                         + claimed_burst_ratio posts * 0.2) 1)))"

text \<open>
  The burst ratio by positions: the fraction of positions \<open>i\<close> of a list of timestamps
  such that at least five entries at positions from \<open>i\<close> on are at most 15 minutes
  later than entry \<open>i\<close>.
\<close>

definition positional_burst_ratio :: "real list \<Rightarrow> real" where
  "positional_burst_ratio ts =
     real (card {i. i < length ts
                   \<and> 5 \<le> card {j. i \<le> j \<and> j < length ts \<and> ts ! j - ts ! i \<le> 900}})
       / real (length ts)"

definition post_at :: "string \<Rightarrow> real \<Rightarrow> post" where
  "post_at i t =
     \<lparr>post_id = i, timestamp = t, author_id = ''a1'', post_text = ''hello'', urls = [],
      domains = [], hashtags = [], narrative_id = Some ''n1''\<rparr>"

definition posts_with_ties :: "post list" where
  "posts_with_ties =
     [post_at ''1'' 0, post_at ''2'' 0, post_at ''3'' 0, post_at ''4'' 0, post_at ''5'' 0,
      post_at ''6'' 10000]"

text \<open>Two posts 32 hours apart: the exact velocity, 0.00625, is a rounding tie.\<close>

definition posts_at_tie :: "post list" where
  "posts_at_tie = [post_at ''1'' 0, post_at ''2'' 115200]"

definition posts_with_burst :: "post list" where
  "posts_with_burst =
     [post_at ''1'' 0, post_at ''2'' 60, post_at ''3'' 120, post_at ''4'' 180,
      post_at ''5'' 240, post_at ''6'' 7200]"

subsection \<open>The pair score as the specification words it\<close>

text \<open>The Jaccard overlap of two collections, with an empty union counted as size one.\<close>

definition jaccard :: "string list \<Rightarrow> string list \<Rightarrow> real" where
  "jaccard xs ys = real (card (set xs \<inter> set ys)) / real (max (card (set xs \<union> set ys)) 1)"

definition combined_score :: "detector \<Rightarrow> embeddings \<Rightarrow> post \<times> nat \<Rightarrow> post \<times> nat \<Rightarrow> real" where
  "combined_score d emb p1 p2 =
     text_weight d * (case emb of None \<Rightarrow> 0 | Some cs \<Rightarrow> cs (snd p1) (snd p2))
     + domain_weight d * jaccard (domains (fst p1)) (domains (fst p2))
     + hashtag_weight d * jaccard (hashtags (fst p1)) (hashtags (fst p2))"

text \<open>The cross-author post pairs whose timestamps differ by at most the time window.\<close>

definition qualifying_pairs ::
  "detector \<Rightarrow> (post \<times> nat) list \<Rightarrow> (post \<times> nat) list \<Rightarrow> ((post \<times> nat) \<times> (post \<times> nat)) list"
  where
  "qualifying_pairs d posts1 posts2 =
     filter (\<lambda>pp. \<bar>timestamp (fst (fst pp)) - timestamp (fst (snd pp))\<bar> \<le> time_window d)
       (List.product posts1 posts2)"

definition tagged_post :: "string \<Rightarrow> string \<Rightarrow> real \<Rightarrow> string list \<Rightarrow> post" where
  "tagged_post i a t hs =
     \<lparr>post_id = i, timestamp = t, author_id = a, post_text = ''hello'', urls = [],
      domains = [], hashtags = hs, narrative_id = Some ''n1''\<rparr>"

definition default_detector :: detector where
  "default_detector = detector_init default_settings None None None"

definition posts_of_alice :: "(post \<times> nat) list" where
  "posts_of_alice = [(tagged_post ''1'' ''alice'' 0 [''vote''], 0)]"

definition posts_of_bob :: "(post \<times> nat) list" where
  "posts_of_bob =
     [(tagged_post ''2'' ''bob'' 0 [''vote''], 1), (tagged_post ''3'' ''bob'' 60 [''news''], 2)]"

subsection \<open>Sample pairs\<close>

definition sample_pair :: "string \<Rightarrow> string \<Rightarrow> real \<Rightarrow> string \<Rightarrow> coordinated_pair" where
  "sample_pair a b s n =
     \<lparr>author1_id = a, author2_id = b, cp_score = s, evidence = empty_evidence,
      cp_narrative_id = Some n\<rparr>"

text \<open>Alice and bob are coordinated in two narratives, bob and carol in one.\<close>

definition pairs_two_narratives :: "coordinated_pair list" where
  "pairs_two_narratives =
     [sample_pair ''alice'' ''bob'' 0.9 ''n1'', sample_pair ''alice'' ''bob'' 0.9 ''n2'',
      sample_pair ''bob'' ''carol'' 0.9 ''n2'']"

subsection \<open>The pairwise detector as the specification words it\<close>







subsection \<open>Connected components as the specification words them\<close>

text \<open>
  The undirected graph of a list of pairs: an edge in both directions between the two
  authors of every pair. The component of an author is everything reachable from it.
\<close>

definition coordination_edges :: "coordinated_pair list \<Rightarrow> (string \<times> string) set" where
  "coordination_edges pairs =
     (\<lambda>p. (author1_id p, author2_id p)) ` set pairs
       \<union> (\<lambda>p. (author2_id p, author1_id p)) ` set pairs"

definition coordinated_authors :: "coordinated_pair list \<Rightarrow> string set" where
  "coordinated_authors pairs = author1_id ` set pairs \<union> author2_id ` set pairs"

definition component_of :: "coordinated_pair list \<Rightarrow> string \<Rightarrow> string set" where
  "component_of pairs a = (coordination_edges pairs)\<^sup>* `` {a}"

text \<open>The edges that an adjacency dictionary stores.\<close>

definition graph_edges :: "(string \<times> string list) list \<Rightarrow> (string \<times> string) set" where
  "graph_edges graph = {(a, b). b \<in> set (dict_get graph a)}"

section \<open>Properties\<close>

subsection \<open>Rounding\<close>

lemma py_round4_cases:
  "py_round4 x = of_int \<lfloor>x * 10000\<rfloor> / 10000 \<or> py_round4 x = of_int (\<lfloor>x * 10000\<rfloor> + 1) / 10000"
  by (simp add: py_round4_def Let_def)

lemma py_round4_exact: "py_round4 (of_int k / 10000) = of_int k / 10000"
  by (simp add: py_round4_def Let_def)

lemma py_round4_ge:
  assumes "of_int k / 10000 \<le> x"
  shows "of_int k / 10000 \<le> py_round4 x"
proof -
  have "of_int k \<le> x * 10000" using assms by (simp add: field_simps)
  then have "k \<le> \<lfloor>x * 10000\<rfloor>" by (simp add: le_floor_iff)
  then have "(of_int k :: real) \<le> of_int \<lfloor>x * 10000\<rfloor>" by simp
  then show ?thesis
    using py_round4_cases [of x] by (auto simp: field_simps)
qed

lemma py_round4_le:
  assumes "x \<le> of_int k / 10000"
  shows "py_round4 x \<le> of_int k / 10000"
proof (cases "x * 10000 = of_int k")
  case True
  then have x: "x = of_int k / 10000" by simp
  show ?thesis unfolding x by (simp only: py_round4_exact order_refl)
next
  case False
  then have "x * 10000 < of_int k" using assms by (simp add: field_simps)
  then have "\<lfloor>x * 10000\<rfloor> < k" by (simp add: floor_less_iff)
  then have "\<lfloor>x * 10000\<rfloor> + 1 \<le> k" by simp
  then have "(of_int (\<lfloor>x * 10000\<rfloor> + 1) :: real) \<le> of_int k" 
    by (simp only: of_int_le_iff)
  then show ?thesis
    using py_round4_cases [of x] by (auto simp: field_simps)
qed

text \<open>The float of a value and its rounding.\<close>

lemma py_round4_ge_near:
  assumes "of_int k / 10000 - 1 / 20000 < y"
  shows "of_int k / 10000 \<le> py_round4 y"
proof (cases "of_int k \<le> y * 10000")
  case True
  then have "of_int k / 10000 \<le> y" by (simp add: field_simps)
  then show ?thesis by (rule py_round4_ge)
next
  case False
  then have lt: "y * 10000 < of_int k" by simp
  have gt: "of_int k - 1 / 2 < y * 10000" using assms by (simp add: field_simps)
  have f: "\<lfloor>y * 10000\<rfloor> = k - 1"
    using lt gt by (simp add: floor_eq_iff)
  have "1 / 2 < y * 10000 - of_int (k - 1)" using gt by simp
  then show ?thesis by (simp add: py_round4_def Let_def f)
qed

lemma py_round4_le_near:
  assumes "y < of_int k / 10000 + 1 / 20000"
  shows "py_round4 y \<le> of_int k / 10000"
proof (cases "y * 10000 \<le> of_int k")
  case True
  then have "y \<le> of_int k / 10000" by (simp add: field_simps)
  then show ?thesis by (rule py_round4_le)
next
  case False
  then have gt: "of_int k < y * 10000" by simp
  have lt: "y * 10000 < of_int k + 1 / 2" using assms by (simp add: field_simps)
  have f: "\<lfloor>y * 10000\<rfloor> = k" using lt gt by (simp add: floor_eq_iff)
  have "y * 10000 - of_int k < 1 / 2" using lt by simp
  then show ?thesis by (simp add: py_round4_def Let_def f)
qed

lemma py_round4_near:
  assumes "\<bar>y - of_int k / 10000\<bar> < 1 / 20000"
  shows "py_round4 y = of_int k / 10000"
proof (rule antisym)
  show "py_round4 y \<le> of_int k / 10000"
    using assms by (intro py_round4_le_near) linarith
  show "of_int k / 10000 \<le> py_round4 y"
    using assms by (intro py_round4_ge_near) linarith
qed

lemma py_round4_multiple: "\<exists>k. py_round4 y = of_int k / 10000"
  using py_round4_cases [of y] by blast

lemma py_round4_close: "\<bar>py_round4 y - y\<bar> \<le> 1 / 20000"
proof -
  have a: "of_int \<lfloor>y * 10000\<rfloor> \<le> y * 10000" and b: "y * 10000 < of_int \<lfloor>y * 10000\<rfloor> + 1"
    by linarith+
  define f where "f = \<lfloor>y * 10000\<rfloor>"
  have a': "of_int f \<le> y * 10000" and b': "y * 10000 < of_int f + 1"
    using a b by (simp_all add: f_def)
  consider "y * 10000 - of_int f < 1 / 2" | "1 / 2 < y * 10000 - of_int f"
    | "y * 10000 - of_int f = 1 / 2"
    by linarith
  then show ?thesis
  proof cases
    case 1
    then have "py_round4 y = of_int f / 10000"
      by (simp add: py_round4_def Let_def f_def)
    then show ?thesis using a' 1 by (simp add: abs_le_iff field_simps)
  next
    case 2
    then have "py_round4 y = of_int (f + 1) / 10000"
      by (simp add: py_round4_def Let_def f_def)
    then show ?thesis using b' 2 by (simp add: abs_le_iff field_simps)
  next
    case 3
    then have "py_round4 y = of_int f / 10000 \<or> py_round4 y = of_int (f + 1) / 10000"
      by (simp add: py_round4_def Let_def f_def)
    then show ?thesis using 3 by (auto simp: abs_le_iff field_simps)
  qed
qed

lemma exact_arithmetic_accurate: "float_accurate exact_arithmetic"
  by (simp add: float_accurate_def exact_arithmetic_def float_tolerance_def le_max_iff_disj)

lemma float_above_accurate: "float_accurate float_above"
  by (simp add: float_accurate_def float_above_def float_tolerance_def le_max_iff_disj)

lemma float_below_accurate: "float_accurate float_below"
  by (simp add: float_accurate_def float_below_def float_tolerance_def le_max_iff_disj)

lemma float_accurate_small:
  assumes "float_accurate fl" and "\<bar>x\<bar> \<le> 1"
  shows "\<bar>fl x - x\<bar> \<le> 1 / 1000000000"
proof -
  have "\<bar>fl x - x\<bar> \<le> float_tolerance * max 1 \<bar>x\<bar>"
    using assms(1) by (simp add: float_accurate_def)
  moreover have "max 1 \<bar>x\<bar> = 1" using assms(2) by simp
  ultimately show ?thesis by (simp add: float_tolerance_def)
qed

lemma round_float_near:
  assumes "float_accurate fl" and "\<bar>x\<bar> \<le> 1" and "\<bar>x - of_int k / 10000\<bar> \<le> 1 / 25000"
  shows "py_round4 (fl x) = of_int k / 10000"
proof (rule py_round4_near)
  have "\<bar>fl x - x\<bar> \<le> 1 / 1000000000" using assms(1,2) by (rule float_accurate_small)
  then show "\<bar>fl x - of_int k / 10000\<bar> < 1 / 20000" using assms(3) by linarith
qed


subsection \<open>The constructor of the detector\<close>

text \<open>
  C10. An explicit argument of zero is treated like a missing one: the detector takes the
  configured value (60 minutes, 0.85 and 3 under the default settings), because
  \<^verbatim>\<open>__init__\<close> combines argument and setting with \<^verbatim>\<open>or\<close>.
\<close>

theorem detector_init_zero_argument_uses_setting:
  "time_window (detector_init st (Some 0) sa ma)
     = 60 * real_of_int (time_window_minutes (coordination st))
   \<and> det_similarity_threshold (detector_init st ta (Some 0) ma)
     = similarity_threshold (coordination st)
   \<and> det_min_group_size (detector_init st ta sa (Some 0)) = min_group_size (coordination st)
   \<and> time_window (detector_init default_settings (Some 0) sa ma) = 60 * 60
   \<and> det_similarity_threshold (detector_init default_settings ta (Some 0) ma) = 0.85
   \<and> det_min_group_size (detector_init default_settings ta sa (Some 0)) = 3"
  by (simp add: detector_init_def py_or_def default_settings_def)

subsection \<open>The risk engine\<close>

lemma risk_level_cases:
  "nr_risk_level (calculate_narrative_risk fl st n posts groups) =
     (let s = fl (weighted_score (weights (risk st)) (risk_components_of fl st n posts groups))
      in if th_high (thresholds (risk st)) \<le> s then HIGH
         else if th_medium (thresholds (risk st)) \<le> s then MEDIUM else LOW)"
  by (simp add: calculate_narrative_risk_def Let_def)

lemma risk_score_rounded:
  "risk_score (calculate_narrative_risk fl st n posts groups) =
     py_round4 (fl (weighted_score (weights (risk st))
                      (risk_components_of fl st n posts groups)))"
  by (simp add: calculate_narrative_risk_def Let_def)

lemma components_of_risk:
  "components (calculate_narrative_risk fl st n posts groups)
     = risk_components_of fl st n posts groups"
  by (simp add: calculate_narrative_risk_def Let_def)

lemma sample_coordination:
  assumes "float_accurate fl"
  shows "calculate_coordination_score fl ''n1'' [sample_group] 3 = 1"
proof -
  have "calculate_coordination_score fl ''n1'' [sample_group] 3 = py_round4 (fl 1)"
    by (simp add: calculate_coordination_score_def sample_group_def Let_def
        coordination_step_def set_update_def set_add_def)
  then show ?thesis
    using round_float_near [OF assms, of 1 10000] by simp
qed

lemma near_high_components:
  assumes "float_accurate fl"
  shows "risk_components_of fl default_settings sample_narrative posts_near_high [sample_group] =
     \<lparr>velocity = 1, coordination_density = 1, bot_score = 0.5,
      foreign_domain_ratio = 0.3333, toxicity = 1\<rparr>"
proof -
  have "calculate_velocity_score fl posts_near_high sample_narrative = 1"
    by (simp add: calculate_velocity_score_def posts_near_high_def sample_post_def Let_def)
  moreover have "calculate_bot_score fl posts_near_high = 0.5"
  proof -
    have "calculate_bot_score fl posts_near_high = py_round4 (fl (1 / 2))"
      by (simp add: calculate_bot_score_def posts_near_high_def sample_post_def Let_def
          author_indicators_def)
    then show ?thesis
      using round_float_near [OF assms, of "1 / 2" 5000] by simp
  qed
  moreover have "calculate_foreign_domain_score fl default_settings posts_near_high None
      = 0.3333"
  proof -
    have "calculate_foreign_domain_score fl default_settings posts_near_high None
        = py_round4 (fl (1 / 3))"
      by (simp add: calculate_foreign_domain_score_def posts_near_high_def sample_post_def
          Let_def default_settings_def foreign_domain_step_def set_add_def endswith_def)
    then show ?thesis
      using round_float_near [OF assms, of "1 / 3" 3333] by simp
  qed
  moreover have "calculate_toxicity_score fl posts_near_high = 1"
  proof -
    have "calculate_toxicity_score fl posts_near_high = py_round4 (fl 1)"
      by (simp add: calculate_toxicity_score_def posts_near_high_def sample_post_def Let_def
          toxicity_step_def lower_char_def is_space_def is_alnum_def toxic_keywords_def)
    then show ?thesis
      using round_float_near [OF assms, of 1 10000] by simp
  qed
  ultimately show ?thesis
    using sample_coordination [OF assms]
    by (simp add: risk_components_of_def sample_narrative_def)
qed

lemma near_medium_components:
  assumes "float_accurate fl"
  shows "risk_components_of fl default_settings sample_narrative posts_near_medium
           [sample_group] =
     \<lparr>velocity = 1, coordination_density = 1, bot_score = 0,
      foreign_domain_ratio = 0.3333, toxicity = 0\<rparr>"
proof -
  have "calculate_velocity_score fl posts_near_medium sample_narrative = 1"
    by (simp add: calculate_velocity_score_def posts_near_medium_def sample_post_def Let_def)
  moreover have "calculate_bot_score fl posts_near_medium = 0"
    by (simp add: calculate_bot_score_def posts_near_medium_def sample_post_def Let_def
        author_indicators_def)
  moreover have "calculate_foreign_domain_score fl default_settings posts_near_medium None
      = 0.3333"
  proof -
    have "calculate_foreign_domain_score fl default_settings posts_near_medium None
        = py_round4 (fl (1 / 3))"
      by (simp add: calculate_foreign_domain_score_def posts_near_medium_def sample_post_def
          Let_def default_settings_def foreign_domain_step_def set_add_def endswith_def)
    then show ?thesis
      using round_float_near [OF assms, of "1 / 3" 3333] by simp
  qed
  moreover have "calculate_toxicity_score fl posts_near_medium = 0"
  proof -
    have "calculate_toxicity_score fl posts_near_medium = py_round4 (fl 0)"
      by (simp add: calculate_toxicity_score_def posts_near_medium_def sample_post_def Let_def
          toxicity_step_def lower_char_def is_space_def is_alnum_def toxic_keywords_def)
    then show ?thesis
      using round_float_near [OF assms, of 0 0] by simp
  qed
  ultimately show ?thesis
    using sample_coordination [OF assms]
    by (simp add: risk_components_of_def sample_narrative_def)
qed

lemma near_high_sum:
  assumes "float_accurate fl"
  shows "weighted_score (weights (risk default_settings))
     (risk_components_of fl default_settings sample_narrative posts_near_high [sample_group])
   = 0.799995"
  unfolding near_high_components [OF assms]
  by (simp add: weighted_score_def default_settings_def)

lemma near_medium_sum:
  assumes "float_accurate fl"
  shows "weighted_score (weights (risk default_settings))
     (risk_components_of fl default_settings sample_narrative posts_near_medium [sample_group])
   = 0.599995"
  unfolding near_medium_components [OF assms]
  by (simp add: weighted_score_def default_settings_def)

lemma default_thresholds:
  "th_high (thresholds (risk default_settings)) = 0.8"
  "th_medium (thresholds (risk default_settings)) = 0.6"
  by (simp_all add: default_settings_def)

lemma float_below_threshold:
  assumes "float_accurate fl"
  shows "fl 0.799995 < 0.8 \<and> 0.6 \<le> fl 0.799995 \<and> fl 0.599995 < 0.6"
proof -
  have b: "x - 1 / 1000000000 \<le> fl x \<and> fl x \<le> x + 1 / 1000000000" if "\<bar>x\<bar> \<le> 1" for x
    using float_accurate_small [OF assms that] by linarith
  show ?thesis
    using b [of "0.799995"] b [of "0.599995"] by simp
qed

lemma near_high_level:
  assumes "float_accurate fl"
  shows "nr_risk_level (calculate_narrative_risk fl default_settings sample_narrative
           posts_near_high [sample_group]) = MEDIUM"
  unfolding risk_level_cases near_high_sum [OF assms] default_thresholds Let_def
  using float_below_threshold [OF assms] by simp

lemma near_high_score:
  assumes "float_accurate fl"
  shows "risk_score (calculate_narrative_risk fl default_settings sample_narrative
           posts_near_high [sample_group]) = 0.8"
  unfolding risk_score_rounded near_high_sum [OF assms]
  using round_float_near [OF assms, of "0.799995" 8000] by simp

lemma near_medium_level:
  assumes "float_accurate fl"
  shows "nr_risk_level (calculate_narrative_risk fl default_settings sample_narrative
           posts_near_medium [sample_group]) = LOW"
  unfolding risk_level_cases near_medium_sum [OF assms] default_thresholds Let_def
  using float_below_threshold [OF assms] by simp

lemma near_medium_score:
  assumes "float_accurate fl"
  shows "risk_score (calculate_narrative_risk fl default_settings sample_narrative
           posts_near_medium [sample_group]) = 0.6"
  unfolding risk_score_rounded near_medium_sum [OF assms]
  using round_float_near [OF assms, of "0.599995" 6000] by simp

text \<open>
  C9. The level is decided on the weighted sum before rounding, as the engine holds it,
  and the emitted score is that sum rounded to four decimals. For the narrative
  \<open>posts_near_high\<close> the sum is 0.799995, so the record carries the score 0.8, the high
  threshold, with level MEDIUM; this holds whatever the error of the float arithmetic
  within the tolerance.
\<close>

theorem risk_level_uses_unrounded_sum:
  assumes "float_accurate fl"
  shows "nr_risk_level (calculate_narrative_risk fl st n posts groups) =
     (let s = fl (weighted_score (weights (risk st))
                    (components (calculate_narrative_risk fl st n posts groups)))
      in if th_high (thresholds (risk st)) \<le> s then HIGH
         else if th_medium (thresholds (risk st)) \<le> s then MEDIUM else LOW)
   \<and> risk_score (calculate_narrative_risk fl st n posts groups) =
       py_round4 (fl (weighted_score (weights (risk st))
                        (components (calculate_narrative_risk fl st n posts groups))))
   \<and> (\<exists>n posts groups.
         risk_score (calculate_narrative_risk fl default_settings n posts groups)
           = th_high (thresholds (risk default_settings))
         \<and> nr_risk_level (calculate_narrative_risk fl default_settings n posts groups)
             = MEDIUM)"
proof -
  let ?r = "calculate_narrative_risk fl default_settings sample_narrative posts_near_high
              [sample_group]"
  have a: "risk_score ?r = th_high (thresholds (risk default_settings))"
    by (simp only: near_high_score [OF assms] default_thresholds)
  have b: "nr_risk_level ?r = MEDIUM"
    by (rule near_high_level [OF assms])
  from a b show ?thesis
    by (auto simp: risk_level_cases risk_score_rounded components_of_risk)
qed

theorem risk_level_uses_unrounded_sum_witness:
  "float_accurate exact_arithmetic
   \<and> (\<exists>n posts groups.
         risk_score (calculate_narrative_risk exact_arithmetic default_settings n posts groups)
           = 0.8
         \<and> nr_risk_level (calculate_narrative_risk exact_arithmetic default_settings n posts
                            groups) = MEDIUM)"
  using risk_level_uses_unrounded_sum [OF exact_arithmetic_accurate, of default_settings
      sample_narrative posts_near_high "[sample_group]"] exact_arithmetic_accurate
  unfolding default_thresholds by blast

lemma float_accurate_sum:
  assumes "float_accurate fl"
  shows "\<bar>fl s - s\<bar> \<le> float_tolerance * max 1 \<bar>s\<bar>"
  using assms by (simp add: float_accurate_def)

text \<open>
  C6, as stated, fails: for the narrative \<open>posts_near_medium\<close> the emitted score is 0.6,
  which reaches the medium threshold, and yet the level is LOW. The sum before rounding
  is 0.599995, further from the threshold than any error of the float arithmetic.
\<close>

theorem risk_level_of_emitted_score_counterexample:
  "th_medium (thresholds (risk default_settings))
     \<le> risk_score (calculate_narrative_risk exact_arithmetic default_settings sample_narrative
                     posts_near_medium [sample_group])
   \<and> nr_risk_level (calculate_narrative_risk exact_arithmetic default_settings
                       sample_narrative posts_near_medium [sample_group]) = LOW"
  unfolding near_medium_level [OF exact_arithmetic_accurate]
    near_medium_score [OF exact_arithmetic_accurate] default_thresholds by simp

text \<open>
  C6, amended. The engine holds the float of the weighted sum of the five components,
  which differs from the exact sum by no more than the tolerance. The emitted score is
  that float rounded to four decimals: a multiple of 1/10000 at most 0.00005 away from
  it. The level is HIGH when the float, not the emitted score, reaches the high
  threshold, else MEDIUM when it reaches the medium threshold, else LOW. Under the default
  thresholds the emitted score of a HIGH record is at least 0.8, that of a MEDIUM record
  lies between 0.6 and 0.8, and that of a LOW record is at most 0.6; a LOW record can
  carry 0.6 and a MEDIUM record 0.8.
\<close>

theorem risk_score_and_level:
  assumes "float_accurate fl"
  shows "(let r = calculate_narrative_risk fl st n posts groups;
        c = components r; w = weights (risk st); th = thresholds (risk st);
        s = w_velocity w * velocity c + w_coordination_density w * coordination_density c
            + w_bot_score w * bot_score c + w_foreign_domain_ratio w * foreign_domain_ratio c
            + w_toxicity w * toxicity c;
        held = fl s
    in c = risk_components_of fl st n posts groups
       \<and> \<bar>held - s\<bar> \<le> float_tolerance * max 1 \<bar>s\<bar>
       \<and> risk_score r = py_round4 held
       \<and> (\<exists>k. risk_score r = of_int k / 10000)
       \<and> \<bar>risk_score r - held\<bar> \<le> 1 / 20000
       \<and> nr_risk_level r = (if th_high th \<le> held then HIGH
                             else if th_medium th \<le> held then MEDIUM else LOW))
   \<and> (let r = calculate_narrative_risk fl default_settings n posts groups
      in (nr_risk_level r = HIGH \<longrightarrow> 0.8 \<le> risk_score r)
         \<and> (nr_risk_level r = MEDIUM \<longrightarrow> 0.6 \<le> risk_score r \<and> risk_score r \<le> 0.8)
         \<and> (nr_risk_level r = LOW \<longrightarrow> risk_score r \<le> 0.6))"
proof -
  let ?s = "fl (weighted_score (weights (risk default_settings))
              (risk_components_of fl default_settings n posts groups))"
  have ge8: "0.8 \<le> ?s \<Longrightarrow> 0.8 \<le> py_round4 ?s"
    using py_round4_ge [of 8000 ?s] by simp
  have ge6: "0.6 \<le> ?s \<Longrightarrow> 0.6 \<le> py_round4 ?s"
    using py_round4_ge [of 6000 ?s] by simp
  have le8: "?s \<le> 0.8 \<Longrightarrow> py_round4 ?s \<le> 0.8"
    using py_round4_le [of ?s 8000] by simp
  have le6: "?s \<le> 0.6 \<Longrightarrow> py_round4 ?s \<le> 0.6"
    using py_round4_le [of ?s 6000] by simp
  note th = default_thresholds
  have second:
    "(nr_risk_level (calculate_narrative_risk fl default_settings n posts groups) = HIGH
        \<longrightarrow> 0.8 \<le> risk_score (calculate_narrative_risk fl default_settings n posts groups))
     \<and> (nr_risk_level (calculate_narrative_risk fl default_settings n posts groups) = MEDIUM
        \<longrightarrow> 0.6 \<le> risk_score (calculate_narrative_risk fl default_settings n posts groups)
            \<and> risk_score (calculate_narrative_risk fl default_settings n posts groups) \<le> 0.8)
     \<and> (nr_risk_level (calculate_narrative_risk fl default_settings n posts groups) = LOW
        \<longrightarrow> risk_score (calculate_narrative_risk fl default_settings n posts groups) \<le> 0.6)"
    unfolding risk_level_cases risk_score_rounded Let_def th
    using ge8 ge6 le8 le6 by (auto split: if_splits)
  let ?w = "weighted_score (weights (risk st))
              (components (calculate_narrative_risk fl st n posts groups))"
  have first:
    "components (calculate_narrative_risk fl st n posts groups)
       = risk_components_of fl st n posts groups
     \<and> \<bar>fl ?w - ?w\<bar> \<le> float_tolerance * max 1 \<bar>?w\<bar>
     \<and> risk_score (calculate_narrative_risk fl st n posts groups) = py_round4 (fl ?w)
     \<and> (\<exists>k. risk_score (calculate_narrative_risk fl st n posts groups) = of_int k / 10000)
     \<and> \<bar>risk_score (calculate_narrative_risk fl st n posts groups) - fl ?w\<bar> \<le> 1 / 20000
     \<and> nr_risk_level (calculate_narrative_risk fl st n posts groups)
       = (if th_high (thresholds (risk st)) \<le> fl ?w then HIGH
          else if th_medium (thresholds (risk st)) \<le> fl ?w then MEDIUM
          else LOW)"
    using float_accurate_sum [OF assms, of ?w] py_round4_multiple [of "fl ?w"]
      py_round4_close [of "fl ?w"]
    by (simp add: risk_level_cases risk_score_rounded components_of_risk Let_def)
  from first second show ?thesis
    unfolding Let_def weighted_score_def by blast
qed

theorem risk_score_and_level_witness:
  "float_accurate exact_arithmetic
   \<and> nr_risk_level (calculate_narrative_risk exact_arithmetic default_settings sample_narrative
       posts_near_medium [sample_group]) = LOW
   \<and> risk_score (calculate_narrative_risk exact_arithmetic default_settings sample_narrative
       posts_near_medium [sample_group]) \<le> 0.6"
  using risk_score_and_level [OF exact_arithmetic_accurate, of default_settings
      sample_narrative posts_near_medium "[sample_group]"]
    near_medium_level [OF exact_arithmetic_accurate] exact_arithmetic_accurate
  unfolding Let_def by blast

text \<open>
  At a sum that is exactly a threshold the float decides the level. The narrative
  \<open>posts_at_high\<close> has the exact sum 0.8: a float without error gives HIGH, a float a
  little below gives MEDIUM, both with the emitted score 0.8.
\<close>

lemma at_high_components:
  assumes "float_accurate fl"
  shows "risk_components_of fl default_settings sample_narrative posts_at_high [sample_group] =
     \<lparr>velocity = 1, coordination_density = 1, bot_score = 0.5,
      foreign_domain_ratio = 1, toxicity = 0\<rparr>"
proof -
  have "calculate_velocity_score fl posts_at_high sample_narrative = 1"
    by (simp add: calculate_velocity_score_def posts_at_high_def sample_post_def Let_def)
  moreover have "calculate_bot_score fl posts_at_high = 0.5"
  proof -
    have "calculate_bot_score fl posts_at_high = py_round4 (fl (1 / 2))"
      by (simp add: calculate_bot_score_def posts_at_high_def sample_post_def Let_def
          author_indicators_def)
    then show ?thesis
      using round_float_near [OF assms, of "1 / 2" 5000] by simp
  qed
  moreover have "calculate_foreign_domain_score fl default_settings posts_at_high None = 1"
  proof -
    have "calculate_foreign_domain_score fl default_settings posts_at_high None
        = py_round4 (fl 1)"
      by (simp add: calculate_foreign_domain_score_def posts_at_high_def sample_post_def
          Let_def default_settings_def foreign_domain_step_def set_add_def endswith_def)
    then show ?thesis
      using round_float_near [OF assms, of 1 10000] by simp
  qed
  moreover have "calculate_toxicity_score fl posts_at_high = 0"
  proof -
    have "calculate_toxicity_score fl posts_at_high = py_round4 (fl 0)"
      by (simp add: calculate_toxicity_score_def posts_at_high_def sample_post_def Let_def
          toxicity_step_def lower_char_def is_space_def is_alnum_def toxic_keywords_def)
    then show ?thesis
      using round_float_near [OF assms, of 0 0] by simp
  qed
  ultimately show ?thesis
    using sample_coordination [OF assms]
    by (simp add: risk_components_of_def sample_narrative_def)
qed

lemma at_high_sum:
  assumes "float_accurate fl"
  shows "weighted_score (weights (risk default_settings))
     (risk_components_of fl default_settings sample_narrative posts_at_high [sample_group])
   = 0.8"
  unfolding at_high_components [OF assms]
  by (simp add: weighted_score_def default_settings_def)

lemma level_at_threshold_follows_float:
  "nr_risk_level (calculate_narrative_risk exact_arithmetic default_settings sample_narrative
      posts_at_high [sample_group]) = HIGH
   \<and> risk_score (calculate_narrative_risk exact_arithmetic default_settings sample_narrative
      posts_at_high [sample_group]) = 0.8
   \<and> nr_risk_level (calculate_narrative_risk float_below default_settings sample_narrative
      posts_at_high [sample_group]) = MEDIUM
   \<and> risk_score (calculate_narrative_risk float_below default_settings sample_narrative
      posts_at_high [sample_group]) = 0.8"
  unfolding risk_level_cases risk_score_rounded at_high_sum [OF exact_arithmetic_accurate]
    at_high_sum [OF float_below_accurate] default_thresholds Let_def
  by (simp add: exact_arithmetic_def float_below_def py_round4_def Let_def)

subsection \<open>The velocity score\<close>

lemma hd_sort_Min: 
  fixes xs :: "real list"
  assumes ne: "xs \<noteq> []"
  shows "hd (sort xs) = Min (set xs)"
proof -
  have ne': "sort xs \<noteq> []" using ne by (metis length_0_conv length_sort)
  then obtain y ys where s: "sort xs = y # ys" by (cases "sort xs") auto
  have "sorted (y # ys)" using sorted_sort [of xs] s by simp
  then have "\<forall>z\<in>set (y # ys). y \<le> z" by auto
  moreover have "set (y # ys) = set xs" by (metis s set_sort)
  ultimately have "Min (set xs) = y"
    by (intro Min_eqI) auto
  then show ?thesis using s by simp
qed

lemma sorted_le_last:
  fixes xs :: "real list"
  shows "sorted xs \<Longrightarrow> z \<in> set xs \<Longrightarrow> z \<le> last xs"
  by (induction xs) auto

lemma last_sort_Max:
  fixes xs :: "real list"
  assumes ne: "xs \<noteq> []"
  shows "last (sort xs) = Max (set xs)"
proof -
  have ne': "sort xs \<noteq> []" using ne by (metis length_0_conv length_sort)
  have "\<forall>z\<in>set (sort xs). z \<le> last (sort xs)"
    using sorted_le_last [of "sort xs"] by simp
  moreover have "last (sort xs) \<in> set (sort xs)" using ne' by (rule last_in_set)
  ultimately have "Max (set xs) = last (sort xs)"
    by (intro Max_eqI) auto
  then show ?thesis by simp
qed

lemma burst_count_distinct_aux:
  "sorted (pre @ xs) \<Longrightarrow> distinct (pre @ xs) \<Longrightarrow>
   burst_count xs =
     length (filter (\<lambda>t. 5 \<le> length (filter (\<lambda>o'. t \<le> o' \<and> o' \<le> t + 900) (pre @ xs))) xs)"
proof (induction xs arbitrary: pre)
  case Nil
  then show ?case by simp
next
  case (Cons t rest)
  have pre: "filter (\<lambda>o'. t \<le> o' \<and> o' \<le> t + 900) pre = []"
  proof -
    have "\<forall>x\<in>set pre. x \<le> t \<and> x \<noteq> t"
      using Cons.prems by (auto simp: sorted_append)
    then show ?thesis by (auto simp: filter_empty_conv)
  qed
  have suf: "filter (\<lambda>o'. t \<le> o' \<and> o' \<le> t + 900) (t # rest)
      = filter (\<lambda>other_ts. other_ts - t \<le> 900) (t # rest)"
  proof (rule filter_cong [OF refl])
    fix x assume "x \<in> set (t # rest)"
    then have "t \<le> x" using Cons.prems by (auto simp: sorted_append)
    then show "(t \<le> x \<and> x \<le> t + 900) = (x - t \<le> 900)" by auto
  qed
  have w: "length (filter (\<lambda>o'. t \<le> o' \<and> o' \<le> t + 900) (pre @ t # rest))
      = length (filter (\<lambda>other_ts. other_ts - t \<le> 900) (t # rest))"
    using pre suf by simp
  have ih: "burst_count rest =
      length (filter (\<lambda>s. 5 \<le> length (filter (\<lambda>o'. s \<le> o' \<and> o' \<le> s + 900) (pre @ t # rest))) rest)"
    using Cons.IH [of "pre @ [t]"] Cons.prems by simp
  define Q where
    "Q = (\<lambda>s. 5 \<le> length (filter (\<lambda>o'. s \<le> o' \<and> o' \<le> s + 900) (pre @ t # rest)))"
  have qt: "Q t \<longleftrightarrow> 5 \<le> length (filter (\<lambda>other_ts. other_ts - t \<le> 900) (t # rest))"
    unfolding Q_def w ..
  have ih': "burst_count rest = length (filter Q rest)"
    unfolding Q_def by (rule ih)
  have step: "burst_count (t # rest) =
      (if 5 \<le> length (filter (\<lambda>other_ts. other_ts - t \<le> 900) (t # rest)) then 1 else 0)
        + burst_count rest"
    by (simp only: burst_count.simps Let_def)
  have "burst_count (t # rest) = length (filter Q (t # rest))"
    unfolding step ih' qt [symmetric] by simp
  then show ?case unfolding Q_def .
qed

lemma length_filter_sort:
  fixes xs :: "real list"
  shows "length (filter P (sort xs)) = length (filter P xs)"
  by (simp add: filter_sort)

lemma burst_count_distinct:
  assumes "distinct ts"
  shows "burst_count (sort ts) =
     length (filter (\<lambda>t. 5 \<le> length (filter (\<lambda>o'. t \<le> o' \<and> o' \<le> t + 900) ts)) ts)"
proof -
  have "burst_count (sort ts) =
      length (filter (\<lambda>t. 5 \<le> length (filter (\<lambda>o'. t \<le> o' \<and> o' \<le> t + 900) (sort ts))) (sort ts))"
    using burst_count_distinct_aux [of "[]" "sort ts"] assms by simp
  then show ?thesis by (simp only: length_filter_sort)
qed

lemma burst_count_positional:
  "burst_count ts =
     card {i. i < length ts \<and> 5 \<le> card {j. i \<le> j \<and> j < length ts \<and> ts ! j - ts ! i \<le> 900}}"
proof (induction ts)
  case Nil
  then show ?case by simp
next
  case (Cons t rest)
  let ?W = "\<lambda>xs i. card {j. i \<le> j \<and> j < length xs \<and> xs ! j - xs ! i \<le> 900}"
  let ?S = "\<lambda>xs. {i. i < length xs \<and> 5 \<le> ?W xs i}"
  have w0: "?W (t # rest) 0 = length (filter (\<lambda>other_ts. other_ts - t \<le> 900) (t # rest))"
    by (simp only: length_filter_conv_card) simp
  have wS: "?W (t # rest) (Suc i) = ?W rest i" for i
  proof -
    have "{j. Suc i \<le> j \<and> j < length (t # rest) \<and> (t # rest) ! j - (t # rest) ! Suc i \<le> 900}
        = Suc ` {j. i \<le> j \<and> j < length rest \<and> rest ! j - rest ! i \<le> 900}"
    proof (intro set_eqI iffI)
      fix j assume "j \<in> {j. Suc i \<le> j \<and> j < length (t # rest)
          \<and> (t # rest) ! j - (t # rest) ! Suc i \<le> 900}"
      then obtain j' where "j = Suc j'" and "i \<le> j'" and "j' < length rest"
        and "rest ! j' - rest ! i \<le> 900"
        by (cases j) auto
      then show "j \<in> Suc ` {j. i \<le> j \<and> j < length rest \<and> rest ! j - rest ! i \<le> 900}"
        by blast
    next
      fix j assume "j \<in> Suc ` {j. i \<le> j \<and> j < length rest \<and> rest ! j - rest ! i \<le> 900}"
      then show "j \<in> {j. Suc i \<le> j \<and> j < length (t # rest)
          \<and> (t # rest) ! j - (t # rest) ! Suc i \<le> 900}"
        by auto
    qed
    then show ?thesis by (simp only: card_image [OF inj_Suc])
  qed
  have split: "?S (t # rest) = (if 5 \<le> ?W (t # rest) 0 then {0} else {}) \<union> Suc ` ?S rest"
  proof (intro set_eqI iffI)
    fix i assume a: "i \<in> ?S (t # rest)"
    show "i \<in> (if 5 \<le> ?W (t # rest) 0 then {0} else {}) \<union> Suc ` ?S rest"
    proof (cases i)
      case 0
      then show ?thesis using a by simp
    next
      case (Suc i')
      then have "i' < length rest" and "5 \<le> ?W rest i'"
        using a wS [of i'] by simp_all
      then show ?thesis using Suc by blast
    qed
  next
    fix i assume a: "i \<in> (if 5 \<le> ?W (t # rest) 0 then {0} else {}) \<union> Suc ` ?S rest"
    then consider "i = 0" "5 \<le> ?W (t # rest) 0" | i' where "i = Suc i'" "i' \<in> ?S rest"
      by (auto split: if_splits)
    then show "i \<in> ?S (t # rest)"
    proof cases
      case 1
      then show ?thesis by simp
    next
      case 2
      then show ?thesis using wS [of i'] by simp
    qed
  qed
  have fin: "finite (?S rest)" by simp
  have "card (?S (t # rest)) = (if 5 \<le> ?W (t # rest) 0 then 1 else 0) + card (?S rest)"
  proof -
    have disj: "(if 5 \<le> ?W (t # rest) 0 then {0} else {}) \<inter> Suc ` ?S rest = {}"
      by auto
    have "card (?S (t # rest))
        = card (if 5 \<le> ?W (t # rest) 0 then {0::nat} else {}) + card (Suc ` ?S rest)"
      unfolding split using disj fin by (intro card_Un_disjoint) auto
    also have "card (Suc ` ?S rest) = card (?S rest)"
      by (rule card_image [OF inj_Suc])
    finally show ?thesis by (simp split: if_splits)
  qed
  then show ?case
    unfolding burst_count.simps Let_def w0 [symmetric] Cons.IH by simp
qed

lemma velocity_span:
  assumes "\<not> length posts < 2"
  shows "last (sort (map timestamp posts)) - hd (sort (map timestamp posts)) = time_span_of posts"
proof -
  have "map timestamp posts \<noteq> []" using assms by auto
  then show ?thesis
    by (simp add: hd_sort_Min last_sort_Max time_span_of_def)
qed

lemma time_span_nonneg: "posts \<noteq> [] \<Longrightarrow> 0 \<le> time_span_of posts"
  by (simp add: time_span_of_def)

lemma velocity_unfolded:
  assumes "\<not> length posts < 2"
  shows "calculate_velocity_score fl posts n =
     (if time_span_of posts \<le> 0 then 1
      else py_round4
             (fl (min (min (real (length posts) / (time_span_of posts / 3600) / 10) 1
                         + real (burst_count (sort (map timestamp posts)))
                             / real (length (sort (map timestamp posts))) * 0.2) 1)))"
proof -
  have ne: "sort (map timestamp posts) \<noteq> []"
    using assms by (metis length_sort length_map list.size(3) zero_less_numeral)
  show ?thesis
    unfolding calculate_velocity_score_def Let_def velocity_span [OF assms]
    using assms ne by (simp only: if_False if_True not_False_eq_True)
qed

lemma velocity_general:
  assumes "\<not> length posts < 2" and "time_span_of posts \<noteq> 0"
  shows "calculate_velocity_score fl posts n =
     py_round4
       (fl (min (min (real (length posts) / (time_span_of posts / 3600) / 10) 1
                   + real (burst_count (sort (map timestamp posts))) / real (length posts) * 0.2)
              1))"
proof -
  have "posts \<noteq> []" using assms(1) by auto
  then have "0 < time_span_of posts"
    using time_span_nonneg [of posts] assms(2) by simp
  then show ?thesis
    by (simp add: velocity_unfolded [OF assms(1)])
qed

lemma positional_burst_ratio_count:
  "positional_burst_ratio (sort (map timestamp posts)) =
     real (burst_count (sort (map timestamp posts))) / real (length posts)"
  by (simp add: positional_burst_ratio_def burst_count_positional)

lemma velocity_zero_span:
  assumes "\<not> length posts < 2" and "time_span_of posts = 0"
  shows "calculate_velocity_score fl posts n = 1"
  by (simp add: velocity_unfolded [OF assms(1)] assms(2))

lemma claimed_burst_ratio_timestamps:
  "claimed_burst_ratio posts =
     real (length (filter
        (\<lambda>t. 5 \<le> length (filter (\<lambda>o'. t \<le> o' \<and> o' \<le> t + 900) (map timestamp posts)))
        (map timestamp posts))) / real (length posts)"
  by (simp add: claimed_burst_ratio_def filter_map comp_def)

lemma velocity_raw_unit:
  assumes "\<not> length posts < 2" and "time_span_of posts \<noteq> 0"
  shows "0 \<le> min (min (real (length posts) / (time_span_of posts / 3600) / 10) 1
                  + positional_burst_ratio (sort (map timestamp posts)) * 0.2) 1
    \<and> min (min (real (length posts) / (time_span_of posts / 3600) / 10) 1
            + positional_burst_ratio (sort (map timestamp posts)) * 0.2) 1 \<le> 1"
proof -
  have "posts \<noteq> []" using assms(1) by auto
  then have "0 < time_span_of posts"
    using time_span_nonneg [of posts] assms(2) by simp
  then have "0 \<le> real (length posts) / (time_span_of posts / 3600) / 10"
    by simp
  moreover have "0 \<le> positional_burst_ratio (sort (map timestamp posts))"
    by (simp add: positional_burst_ratio_count)
  ultimately show ?thesis by simp
qed

lemma velocity_ties_any_float:
  assumes "float_accurate fl"
  shows "calculate_velocity_score fl posts_with_ties sample_narrative = 0.2493
    \<and> velocity_as_claimed fl posts_with_ties = 0.3827"
proof -
  have "calculate_velocity_score fl posts_with_ties sample_narrative
      = py_round4 (fl (187 / 750))"
    by (simp add: calculate_velocity_score_def posts_with_ties_def post_at_def Let_def)
  moreover have "velocity_as_claimed fl posts_with_ties = py_round4 (fl (287 / 750))"
    by (simp add: velocity_as_claimed_def time_span_of_def claimed_burst_ratio_def
        posts_with_ties_def post_at_def Let_def)
  ultimately show ?thesis
    using round_float_near [OF assms, of "187 / 750" 2493]
      round_float_near [OF assms, of "287 / 750" 3827] by simp
qed

text \<open>
  C7, as stated, fails when posts share a timestamp: five posts at second 0 and one at
  second 10000 give 0.2493, while the specification's wording gives 0.3827. The values
  before rounding, 187/750 and 287/750, are far from a rounding tie, so that the two
  results are the same for every accurate float.
\<close>

theorem velocity_burst_ties_counterexample:
  "calculate_velocity_score exact_arithmetic posts_with_ties sample_narrative = 0.2493
   \<and> velocity_as_claimed exact_arithmetic posts_with_ties = 0.3827"
  by (rule velocity_ties_any_float [OF exact_arithmetic_accurate])

text \<open>
  C7, amended. The velocity score is 0 for fewer than two posts and 1 when the timestamp
  span is zero. Otherwise it is the float computed for
  \<open>min (min (posts_per_hour / 10) 1 + burst_ratio * 0.2) 1\<close>, rounded to four decimals:
  a multiple of 1/10000 at most 0.00005 and the float tolerance away from the exact value
  of that expression, with no tie fixed. Here \<open>burst_ratio\<close> is the fraction of positions
  \<open>i\<close> of the ascending list of timestamps with at least five entries at positions from
  \<open>i\<close> on that are at most 15 minutes later than entry \<open>i\<close>. When no two posts share a
  timestamp the score is the one the specification words: the burst ratio is then the
  fraction of posts with at least five posts, themselves included, in the 15 minutes from
  their timestamp.
\<close>

theorem velocity_score_by_positions:
  assumes "float_accurate fl"
  shows "(length posts < 2 \<longrightarrow> calculate_velocity_score fl posts n = 0)
   \<and> (2 \<le> length posts \<and> time_span_of posts = 0 \<longrightarrow>
        calculate_velocity_score fl posts n = 1)
   \<and> (2 \<le> length posts \<and> time_span_of posts \<noteq> 0 \<longrightarrow>
        (let exact = min (min (real (length posts) / (time_span_of posts / 3600) / 10) 1
                            + positional_burst_ratio (sort (map timestamp posts)) * 0.2) 1;
             v = calculate_velocity_score fl posts n
         in v = py_round4 (fl exact)
            \<and> \<bar>fl exact - exact\<bar> \<le> float_tolerance
            \<and> (\<exists>k. v = of_int k / 10000)
            \<and> \<bar>v - exact\<bar> \<le> 1 / 20000 + float_tolerance))
   \<and> (distinct (map timestamp posts) \<longrightarrow>
        calculate_velocity_score fl posts n = velocity_as_claimed fl posts)"
proof (intro conjI impI)
  assume "length posts < 2"
  then show "calculate_velocity_score fl posts n = 0"
    by (simp add: calculate_velocity_score_def)
next
  assume "2 \<le> length posts \<and> time_span_of posts = 0"
  then show "calculate_velocity_score fl posts n = 1"
    by (simp add: velocity_zero_span)
next
  assume a: "2 \<le> length posts \<and> time_span_of posts \<noteq> 0"
  then have l: "\<not> length posts < 2" and nz: "time_span_of posts \<noteq> 0" by simp_all
  define exact where
    "exact = min (min (real (length posts) / (time_span_of posts / 3600) / 10) 1
                    + positional_burst_ratio (sort (map timestamp posts)) * 0.2) 1"
  have v: "calculate_velocity_score fl posts n = py_round4 (fl exact)"
    unfolding exact_def using l nz
    by (simp add: velocity_general positional_burst_ratio_count)
  have u: "0 \<le> exact \<and> exact \<le> 1"
    unfolding exact_def by (rule velocity_raw_unit [OF l nz])
  then have "\<bar>fl exact - exact\<bar> \<le> 1 / 1000000000"
    using assms by (intro float_accurate_small) simp_all
  then have f: "\<bar>fl exact - exact\<bar> \<le> float_tolerance"
    by (simp add: float_tolerance_def)
  have m: "\<exists>k. py_round4 (fl exact) = of_int k / 10000"
    by (rule py_round4_multiple)
  have c: "\<bar>py_round4 (fl exact) - exact\<bar> \<le> 1 / 20000 + float_tolerance"
    using py_round4_close [of "fl exact"] f by linarith
  show "let exact = min (min (real (length posts) / (time_span_of posts / 3600) / 10) 1
                            + positional_burst_ratio (sort (map timestamp posts)) * 0.2) 1;
             v = calculate_velocity_score fl posts n
         in v = py_round4 (fl exact)
            \<and> \<bar>fl exact - exact\<bar> \<le> float_tolerance
            \<and> (\<exists>k. v = of_int k / 10000)
            \<and> \<bar>v - exact\<bar> \<le> 1 / 20000 + float_tolerance"
    unfolding Let_def exact_def [symmetric] v using f m c by blast
next
  assume d: "distinct (map timestamp posts)"
  show "calculate_velocity_score fl posts n = velocity_as_claimed fl posts"
  proof (cases "length posts < 2")
    case True
    then show ?thesis
      by (simp add: calculate_velocity_score_def velocity_as_claimed_def)
  next
    case False
    show ?thesis
    proof (cases "time_span_of posts = 0")
      case True
      then show ?thesis using False
        by (simp add: velocity_zero_span velocity_as_claimed_def)
    next
      case nz: False
      have "real (burst_count (sort (map timestamp posts))) / real (length posts)
          = claimed_burst_ratio posts"
        by (simp only: claimed_burst_ratio_timestamps burst_count_distinct [OF d])
      then show ?thesis
        using False nz by (simp add: velocity_general velocity_as_claimed_def)
    qed
  qed
qed

theorem velocity_score_by_positions_witness:
  "float_accurate exact_arithmetic
   \<and> 2 \<le> length posts_with_burst \<and> time_span_of posts_with_burst \<noteq> 0
   \<and> distinct (map timestamp posts_with_burst)
   \<and> calculate_velocity_score exact_arithmetic posts_with_burst sample_narrative
       = velocity_as_claimed exact_arithmetic posts_with_burst
   \<and> velocity_as_claimed exact_arithmetic posts_with_burst = 0.3333"
proof -
  have d: "distinct (map timestamp posts_with_burst)"
    by (simp add: posts_with_burst_def post_at_def)
  have s: "time_span_of posts_with_burst \<noteq> 0"
    by (simp add: time_span_of_def posts_with_burst_def post_at_def)
  have l: "2 \<le> length posts_with_burst"
    by (simp add: posts_with_burst_def)
  have v: "velocity_as_claimed exact_arithmetic posts_with_burst = 0.3333"
    by (simp add: velocity_as_claimed_def time_span_of_def claimed_burst_ratio_def
        posts_with_burst_def post_at_def Let_def py_round4_def exact_arithmetic_def)
  show ?thesis
    using velocity_score_by_positions [OF exact_arithmetic_accurate, of posts_with_burst
        sample_narrative] d s l v exact_arithmetic_accurate
    by blast
qed

text \<open>
  At a rounding tie the float decides the neighbour. Two posts 32 hours apart have the
  exact velocity 0.00625, which a float without error rounds to 0.0062 and a float a
  little above to 0.0063.
\<close>

lemma velocity_tie_follows_float:
  "calculate_velocity_score exact_arithmetic posts_at_tie n = 0.0062
   \<and> calculate_velocity_score float_above posts_at_tie n = 0.0063"
proof -
  have v: "calculate_velocity_score fl posts_at_tie n = py_round4 (fl (1 / 160))" for fl
    by (simp add: calculate_velocity_score_def posts_at_tie_def post_at_def Let_def)
  show ?thesis
    unfolding v by (simp add: exact_arithmetic_def float_above_def py_round4_def Let_def)
qed

subsection \<open>The evidence calculator\<close>

lemma length_set_inter: "length (set_inter xs ys) = card (set xs \<inter> set ys)"
proof -
  have "distinct (set_inter xs ys)" by (simp add: set_inter_def)
  moreover have "set (set_inter xs ys) = set xs \<inter> set ys" by (auto simp: set_inter_def)
  ultimately show ?thesis by (metis distinct_card)
qed

lemma union_size_card: "union_size xs ys = card (set xs \<union> set ys)"
  by (simp add: union_size_def length_remdups_card_conv)

lemma pair_score_of_combined: "pair_score_of d emb p1 p2 = combined_score d emb p1 p2"
  by (simp add: pair_score_of_def combined_score_def jaccard_def length_set_inter
      union_size_card Let_def)

lemma snd_inner_loop:
  "snd (foldl (pair_step d emb p1) acc posts2) =
     snd acc @ map (pair_score_of d emb p1)
       (filter (\<lambda>p2. \<bar>timestamp (fst p1) - timestamp (fst p2)\<bar> \<le> time_window d) posts2)"
  by (induction posts2 arbitrary: acc) (simp_all add: pair_step_def Let_def)

lemma inner_loop_unchanged:
  "filter (\<lambda>p2. \<bar>timestamp (fst p1) - timestamp (fst p2)\<bar> \<le> time_window d) posts2 = []
   \<Longrightarrow> foldl (pair_step d emb p1) acc posts2 = acc"
  by (induction posts2 arbitrary: acc) (simp_all add: pair_step_def Let_def split: if_splits)

lemma qualifying_pairs_Cons:
  "qualifying_pairs d (p1 # posts1) posts2 =
     map (Pair p1)
       (filter (\<lambda>p2. \<bar>timestamp (fst p1) - timestamp (fst p2)\<bar> \<le> time_window d) posts2)
     @ qualifying_pairs d posts1 posts2"
  by (simp add: qualifying_pairs_def filter_map comp_def)

lemma snd_outer_loop:
  "snd (foldl (\<lambda>acc p1. foldl (pair_step d emb p1) acc posts2) acc posts1) =
     snd acc @ map (\<lambda>pp. pair_score_of d emb (fst pp) (snd pp)) (qualifying_pairs d posts1 posts2)"
proof (induction posts1 arbitrary: acc)
  case Nil
  then show ?case by (simp add: qualifying_pairs_def)
next
  case (Cons p1 posts1)
  show ?case
    by (simp add: Cons.IH snd_inner_loop qualifying_pairs_Cons comp_def)
qed

lemma outer_loop_unchanged:
  "qualifying_pairs d posts1 posts2 = []
   \<Longrightarrow> foldl (\<lambda>acc p1. foldl (pair_step d emb p1) acc posts2) acc posts1 = acc"
proof (induction posts1 arbitrary: acc)
  case Nil
  then show ?case by simp
next
  case (Cons p1 posts1)
  then show ?case
    by (simp add: qualifying_pairs_Cons inner_loop_unchanged)
qed

lemma py_max_Max:
  assumes "xs \<noteq> []"
  shows "py_max xs = Max (set xs)"
proof (cases xs)
  case Nil
  then show ?thesis using assms by simp
next
  case (Cons x rest)
  then show ?thesis using Max.set_eq_fold [of x rest] by (simp del: set_simps)
qed

lemma pair_scores_collected:
  "snd (foldl (\<lambda>acc p1. foldl (pair_step d emb p1) acc posts2) (empty_evidence, []) posts1) =
     map (\<lambda>pp. combined_score d emb (fst pp) (snd pp)) (qualifying_pairs d posts1 posts2)"
  by (simp add: snd_outer_loop pair_score_of_combined)

text \<open>
  C1. When no post pair across the two authors lies within the time window, the result
  is the score 0 with the empty evidence; otherwise the score is the greatest combined
  score \<open>w_text * text_sim + w_domain * domain_sim + w_hashtag * hashtag_sim\<close> of the
  pairs within the window.
\<close>

theorem pair_score_is_maximum:
  "(qualifying_pairs d posts1 posts2 = [] \<longrightarrow>
      calculate_pair_score d posts1 posts2 emb = (0, empty_evidence))
   \<and> (qualifying_pairs d posts1 posts2 \<noteq> [] \<longrightarrow>
      fst (calculate_pair_score d posts1 posts2 emb) =
        Max ((\<lambda>pp. combined_score d emb (fst pp) (snd pp))
               ` set (qualifying_pairs d posts1 posts2)))"
proof (intro conjI impI)
  assume "qualifying_pairs d posts1 posts2 = []"
  then show "calculate_pair_score d posts1 posts2 emb = (0, empty_evidence)"
    by (simp add: calculate_pair_score_def outer_loop_unchanged Let_def)
next
  assume ne: "qualifying_pairs d posts1 posts2 \<noteq> []"
  let ?scores = "map (\<lambda>pp. combined_score d emb (fst pp) (snd pp))
                   (qualifying_pairs d posts1 posts2)"
  have "?scores \<noteq> []" using ne by simp
  then have "fst (calculate_pair_score d posts1 posts2 emb) = py_max ?scores"
    by (simp add: calculate_pair_score_def Let_def pair_scores_collected)
  also have "\<dots> = Max (set ?scores)"
    using \<open>?scores \<noteq> []\<close> by (rule py_max_Max)
  finally show "fst (calculate_pair_score d posts1 posts2 emb) =
      Max ((\<lambda>pp. combined_score d emb (fst pp) (snd pp))
             ` set (qualifying_pairs d posts1 posts2))"
    by simp
qed

lemma alice_bob_scores:
  "map (\<lambda>pp. combined_score default_detector None (fst pp) (snd pp))
     (qualifying_pairs default_detector posts_of_alice posts_of_bob) = [0.2, 0]"
  by (simp add: qualifying_pairs_def posts_of_alice_def posts_of_bob_def tagged_post_def
      default_detector_def detector_init_def default_settings_def py_or_def combined_score_def
      jaccard_def)

theorem pair_score_is_maximum_witness:
  "qualifying_pairs default_detector posts_of_alice posts_of_bob \<noteq> []
   \<and> fst (calculate_pair_score default_detector posts_of_alice posts_of_bob None) =
       Max ((\<lambda>pp. combined_score default_detector None (fst pp) (snd pp))
              ` set (qualifying_pairs default_detector posts_of_alice posts_of_bob))
   \<and> Max ((\<lambda>pp. combined_score default_detector None (fst pp) (snd pp))
              ` set (qualifying_pairs default_detector posts_of_alice posts_of_bob)) = 0.2"
proof -
  have ne: "qualifying_pairs default_detector posts_of_alice posts_of_bob \<noteq> []"
    using alice_bob_scores by auto
  have "set (map (\<lambda>pp. combined_score default_detector None (fst pp) (snd pp))
     (qualifying_pairs default_detector posts_of_alice posts_of_bob)) = {0.2, 0}"
    by (simp only: alice_bob_scores) simp
  then have m: "Max ((\<lambda>pp. combined_score default_detector None (fst pp) (snd pp))
              ` set (qualifying_pairs default_detector posts_of_alice posts_of_bob)) = 0.2"
    by simp
  show ?thesis
    using pair_score_is_maximum [of default_detector posts_of_alice posts_of_bob None] ne m
    by blast
qed

text \<open>
  C8. The field \<open>text_similarity\<close> of the evidence receives the greatest combined score,
  not the greatest text similarity: without embeddings every text similarity is 0, and
  for the posts of alice and bob, who share a hashtag, the field holds 0.2.
\<close>

theorem text_similarity_holds_combined_score:
  "text_similarity (snd (calculate_pair_score default_detector posts_of_alice posts_of_bob None))
     = Some 0.2"
proof -
  have "snd (foldl (\<lambda>acc p1. foldl (pair_step default_detector None p1) acc posts_of_bob)
               (empty_evidence, []) posts_of_alice) = [0.2, 0]"
    by (simp only: pair_scores_collected alice_bob_scores)
  then show ?thesis
    by (simp add: calculate_pair_score_def Let_def)
qed

subsection \<open>The group builder on a sample\<close>

lemma group_name_0: "group_name 0 = ''coord_group_0000''"
  by (simp add: group_name_def digits.simps eval_nat_numeral)

lemma two_narratives_graph:
  "fst (build_graph pairs_two_narratives) =
     [(''alice'', [''bob'']), (''bob'', [''alice'', ''carol'']), (''carol'', [''bob''])]"
  by (simp add: build_graph_def pairs_two_narratives_def sample_pair_def graph_step_def
      set_add_def)

lemma two_narratives_bfs:
  "bfs [(''alice'', [''bob'']), (''bob'', [''alice'', ''carol'']), (''carol'', [''bob''])]
     [''alice''] {} [] = ({''alice'', ''bob'', ''carol''}, [''alice'', ''bob'', ''carol''])"
  by (simp add: bfs.simps dict_get_def insert_commute)

text \<open>
  C4. A second record for the same author pair replaces the first in the map from author
  pairs to records, so the narrative of the first record is lost: the group of alice, bob
  and carol is reported for narrative \<open>n2\<close> only, although alice and bob are a
  coordinated pair in \<open>n1\<close> as well.
\<close>

theorem group_narratives_miss_overwritten_pair:
  "build_groups default_detector pairs_two_narratives =
     [\<lparr>cg_id = ''coord_group_0000'', author_ids = [''alice'', ''bob'', ''carol''],
       cg_score = 0.9, cg_narrative_ids = [''n2''], cg_size = 3\<rparr>]
   \<and> set (map cp_narrative_id pairs_two_narratives) = {Some ''n1'', Some ''n2''}"
proof -
  have g: "build_graph pairs_two_narratives =
      ([(''alice'', [''bob'']), (''bob'', [''alice'', ''carol'']), (''carol'', [''bob''])],
       snd (build_graph pairs_two_narratives))"
    using two_narratives_graph by (metis prod.collapse)
  have ps: "snd (build_graph pairs_two_narratives) =
      [(''alice'', ''bob'') \<mapsto> sample_pair ''alice'' ''bob'' 0.9 ''n2'',
       (''bob'', ''carol'') \<mapsto> sample_pair ''bob'' ''carol'' 0.9 ''n2'']"
    by (simp add: build_graph_def pairs_two_narratives_def sample_pair_def graph_step_def
        pair_key_def)
  have mg: "make_group (snd (build_graph pairs_two_narratives)) 0 [''alice'', ''bob'', ''carol'']
      = \<lparr>cg_id = ''coord_group_0000'', author_ids = [''alice'', ''bob'', ''carol''],
         cg_score = 0.9, cg_narrative_ids = [''n2''], cg_size = 3\<rparr>"
    unfolding ps
    by (simp add: make_group_def group_name_0 group_step_def pair_key_def sample_pair_def
        set_add_def Let_def)
  have m: "det_min_group_size default_detector = 3"
    by (simp add: default_detector_def detector_init_def default_settings_def py_or_def)
  have bg: "build_groups default_detector pairs_two_narratives =
      [make_group (snd (build_graph pairs_two_narratives)) 0 [''alice'', ''bob'', ''carol'']]"
    apply (subst build_groups_def)
    apply (subst g)
    apply (simp add: component_step_def two_narratives_bfs m)
    apply (simp add: pairs_two_narratives_def)
    done
  have ns: "set (map cp_narrative_id pairs_two_narratives) = {Some ''n1'', Some ''n2''}"
    by (simp add: pairs_two_narratives_def sample_pair_def)
  show ?thesis
    by (simp only: bg mg ns simp_thms)
qed

subsection \<open>Dictionaries of lists\<close>


lemma keys_dict_append:
  "map fst (dict_append k v m) = (if k \<in> set (map fst m) then map fst m else map fst m @ [k])"
  by (induction m) force+

lemma distinct_keys_dict_append:
  "distinct (map fst m) \<Longrightarrow> distinct (map fst (dict_append k v m))"
  by (simp add: keys_dict_append)










subsection \<open>The pairwise detector\<close>


















subsection \<open>Bounds of the scores\<close>













lemma default_detector_fields:
  "text_weight default_detector = 0.5" "domain_weight default_detector = 0.3"
  "hashtag_weight default_detector = 0.2" "det_similarity_threshold default_detector = 0.85"
  "det_min_group_size default_detector = 3" "time_window default_detector = 3600"
  by (simp_all add: default_detector_def detector_init_def default_settings_def py_or_def)





subsection \<open>The groups of the group builder\<close>












subsection \<open>All scores lie in the unit interval\<close>








subsection \<open>The adjacency dictionary\<close>

lemma keys_graph_add: "fst ` set (graph_add a b gr) = insert a (fst ` set gr)"
proof (induction gr)
  case Nil
  then show ?case by simp
next
  case (Cons e gr)
  obtain k ns where e: "e = (k, ns)" by (cases e) auto
  show ?case unfolding e using Cons.IH by (cases "a = k") auto
qed

lemma map_of_graph_add:
  "map_of (graph_add a b gr) x =
     (if x = a then Some (set_add b (dict_get gr a)) else map_of gr x)"
proof (induction gr)
  case Nil
  then show ?case by (simp add: dict_get_def set_add_def)
next
  case (Cons e gr)
  obtain k ns where e: "e = (k, ns)" by (cases e) auto
  show ?case unfolding e using Cons.IH by (cases "a = k") (auto simp: dict_get_def)
qed

lemma dict_get_graph_add:
  "set (dict_get (graph_add a b gr) x) =
     (if x = a then insert b (set (dict_get gr a)) else set (dict_get gr x))"
proof (cases "x = a")
  case True
  have "dict_get (graph_add a b gr) a = set_add b (dict_get gr a)"
    unfolding dict_get_def [of "graph_add a b gr"] map_of_graph_add by simp
  then show ?thesis using True by (auto simp: set_add_def)
next
  case False
  have "dict_get (graph_add a b gr) x = dict_get gr x"
    unfolding dict_get_def map_of_graph_add using False by simp
  then show ?thesis using False by simp
qed

lemma graph_edges_add:
  "graph_edges (graph_add a b g) = insert (a, b) (graph_edges g)"
  by (auto simp: graph_edges_def dict_get_graph_add split: if_splits)

lemma graph_step_edges:
  "graph_edges (fst (graph_step acc p)) =
     insert (author2_id p, author1_id p) (insert (author1_id p, author2_id p)
       (graph_edges (fst acc)))"
  by (simp add: graph_step_def graph_edges_add)

lemma graph_step_keys:
  "fst ` set (fst (graph_step acc p)) =
     insert (author2_id p) (insert (author1_id p) (fst ` set (fst acc)))"
  by (simp add: graph_step_def keys_graph_add)

lemma build_graph_edges_aux:
  "graph_edges (fst (foldl graph_step acc pairs)) =
     graph_edges (fst acc) \<union> coordination_edges pairs"
proof (induction pairs arbitrary: acc)
  case Nil
  then show ?case by (simp add: coordination_edges_def)
next
  case (Cons p pairs)
  show ?case
    by (simp add: Cons.IH graph_step_edges) (auto simp: coordination_edges_def)
qed

lemma build_graph_keys_aux:
  "fst ` set (fst (foldl graph_step acc pairs)) =
     fst ` set (fst acc) \<union> coordinated_authors pairs"
proof (induction pairs arbitrary: acc)
  case Nil
  then show ?case by (simp add: coordinated_authors_def)
next
  case (Cons p pairs)
  have "fst ` set (fst (foldl graph_step (graph_step acc p) pairs)) =
      insert (author2_id p) (insert (author1_id p) (fst ` set (fst acc)))
        \<union> coordinated_authors pairs"
    by (simp only: Cons.IH graph_step_keys)
  then show ?case by (auto simp: coordinated_authors_def)
qed

lemma build_graph_edges: "graph_edges (fst (build_graph pairs)) = coordination_edges pairs"
  using build_graph_edges_aux [of "([], Map.empty)" pairs]
  by (simp add: build_graph_def graph_edges_def dict_get_def)

lemma build_graph_keys: "set (map fst (fst (build_graph pairs))) = coordinated_authors pairs"
  using build_graph_keys_aux [of "([], Map.empty)" pairs]
  by (simp add: build_graph_def)

lemma sym_coordination_edges: "sym (coordination_edges pairs)"
  by (auto simp: sym_def coordination_edges_def)

subsection \<open>Breadth-first search finds the component\<close>

lemma bfs_result:
  "bfs g q V c = (V', c') \<Longrightarrow>
     \<exists>new. c' = c @ new \<and> distinct new \<and> set new \<inter> V = {} \<and> V' = V \<union> set new
        \<and> set new \<subseteq> (graph_edges g)\<^sup>* `` set q
        \<and> (\<forall>x\<in>set new. graph_edges g `` {x} \<subseteq> V') \<and> set q \<subseteq> V'"
proof (induction g q V c arbitrary: V' c' rule: bfs.induct)
  case (1 graph visited component)
  then show ?case by (simp add: bfs.simps)
next
  case (2 graph author queue visited component)
  show ?case
  proof (cases "author \<in> visited")
    case True
    then have "bfs graph queue visited component = (V', c')"
      using "2.prems" by (simp add: bfs.simps)
    then obtain new where n: "c' = component @ new" "distinct new" "set new \<inter> visited = {}"
      "V' = visited \<union> set new" "set new \<subseteq> (graph_edges graph)\<^sup>* `` set queue"
      "\<forall>x\<in>set new. graph_edges graph `` {x} \<subseteq> V'" "set queue \<subseteq> V'"
      using "2.IH"(1) [OF True] by blast
    have "set new \<subseteq> (graph_edges graph)\<^sup>* `` set (author # queue)"
      using n(5) by auto
    moreover have "set (author # queue) \<subseteq> V'"
      using n(4,7) True by auto
    ultimately show ?thesis using n by blast
  next
    case False
    let ?nb = "filter (\<lambda>neighbor. neighbor \<notin> insert author visited) (dict_get graph author)"
    have "bfs graph (queue @ ?nb) (insert author visited) (component @ [author]) = (V', c')"
      using "2.prems" False by (simp add: bfs.simps)
    then obtain new where n: "c' = (component @ [author]) @ new" "distinct new"
      "set new \<inter> insert author visited = {}"
      "V' = insert author visited \<union> set new"
      "set new \<subseteq> (graph_edges graph)\<^sup>* `` set (queue @ ?nb)"
      "\<forall>x\<in>set new. graph_edges graph `` {x} \<subseteq> V'" "set (queue @ ?nb) \<subseteq> V'"
      using "2.IH"(2) [OF False] by blast
    let ?new = "author # new"
    have a: "c' = component @ ?new" using n(1) by simp
    have b: "distinct ?new" using n(2,3) by auto
    have c: "set ?new \<inter> visited = {}" using n(3) False by auto
    have d: "V' = visited \<union> set ?new" using n(4) by auto
    have nb: "set ?nb \<subseteq> graph_edges graph `` {author}"
      by (auto simp: graph_edges_def)
    have e: "set ?new \<subseteq> (graph_edges graph)\<^sup>* `` set (author # queue)"
    proof
      fix x assume "x \<in> set ?new"
      then consider "x = author" | "x \<in> set new" by auto
      then show "x \<in> (graph_edges graph)\<^sup>* `` set (author # queue)"
      proof cases
        case 1
        then show ?thesis by auto
      next
        case 2
        then obtain y where y: "y \<in> set queue \<union> set ?nb"
          and r: "(y, x) \<in> (graph_edges graph)\<^sup>*"
          using n(5) by auto
        show ?thesis
        proof (cases "y \<in> set queue")
          case True
          then show ?thesis using r by auto
        next
          case False
          then have "(author, y) \<in> graph_edges graph" using y nb by auto
          then have "(author, x) \<in> (graph_edges graph)\<^sup>*"
            using r by (rule converse_rtrancl_into_rtrancl)
          then show ?thesis by auto
        qed
      qed
    qed
    have f: "\<forall>x\<in>set ?new. graph_edges graph `` {x} \<subseteq> V'"
    proof
      fix x assume "x \<in> set ?new"
      then consider "x = author" | "x \<in> set new" by auto
      then show "graph_edges graph `` {x} \<subseteq> V'"
      proof cases
        case 1
        show ?thesis
        proof
          fix y assume "y \<in> graph_edges graph `` {x}"
          then have yn: "y \<in> set (dict_get graph author)"
            using 1 by (simp add: graph_edges_def)
          show "y \<in> V'"
          proof (cases "y \<in> insert author visited")
            case True
            then show ?thesis using n(4) by auto
          next
            case False
            then have "y \<in> set ?nb" using yn by simp
            then show ?thesis using n(7) by auto
          qed
        qed
      next
        case 2
        then show ?thesis using n(6) by blast
      qed
    qed
    have g: "set (author # queue) \<subseteq> V'" using n(4,7) by auto
    from a b c d e f g show ?thesis by blast
  qed
qed

lemma sym_component_eq:
  assumes "sym E" and "y \<in> E\<^sup>* `` {x}"
  shows "E\<^sup>* `` {y} = E\<^sup>* `` {x}"
proof -
  have xy: "(x, y) \<in> E\<^sup>*" using assms(2) by simp
  have "sym (E\<^sup>*)" using assms(1) by (rule sym_rtrancl)
  then have yx: "(y, x) \<in> E\<^sup>*" using xy by (simp add: sym_def)
  show ?thesis
  proof (intro set_eqI iffI)
    fix z assume "z \<in> E\<^sup>* `` {y}"
    then have "(y, z) \<in> E\<^sup>*" by simp
    then have "(x, z) \<in> E\<^sup>*" using xy by (rule rtrancl_trans [rotated])
    then show "z \<in> E\<^sup>* `` {x}" by simp
  next
    fix z assume "z \<in> E\<^sup>* `` {x}"
    then have "(x, z) \<in> E\<^sup>*" by simp
    then have "(y, z) \<in> E\<^sup>*" using yx by (rule rtrancl_trans [rotated])
    then show "z \<in> E\<^sup>* `` {y}" by simp
  qed
qed

text \<open>
  A search from an unvisited author, when the visited set is a union of components,
  visits exactly the component of that author.
\<close>

lemma bfs_component:
  assumes s: "sym (graph_edges g)"
    and v: "V = \<Union> ((\<lambda>k. (graph_edges g)\<^sup>* `` {k}) ` K)"
    and a: "a \<notin> V"
    and b: "bfs g [a] V [] = (V', c)"
  shows "distinct c \<and> set c = (graph_edges g)\<^sup>* `` {a} \<and> V' = V \<union> (graph_edges g)\<^sup>* `` {a}"
proof -
  let ?E = "graph_edges g"
  from bfs_result [OF b] have n: "distinct c" "set c \<inter> V = {}" "V' = V \<union> set c"
    "set c \<subseteq> ?E\<^sup>* `` {a}" "\<forall>x\<in>set c. ?E `` {x} \<subseteq> V'" "a \<in> V'"
    by auto
  have ac: "a \<in> set c" using n(3,6) a by auto
  have closed: "y \<in> set c" if "x \<in> set c" and "(x, y) \<in> ?E" for x y
  proof (rule ccontr)
    assume "y \<notin> set c"
    moreover have "y \<in> V'" using n(5) that by auto
    ultimately have "y \<in> V" using n(3) by auto
    then obtain k where k: "k \<in> K" and ky: "y \<in> ?E\<^sup>* `` {k}" using v by auto
    have "(y, x) \<in> ?E" using s that(2) by (simp add: sym_def)
    then have "(k, x) \<in> ?E\<^sup>*" using ky by auto
    then have "x \<in> V" using v k by auto
    then show False using n(2) that(1) by auto
  qed
  have "z \<in> set c" if "(a, z) \<in> ?E\<^sup>*" for z
    using that
  proof (induction rule: rtrancl_induct)
    case base
    then show ?case by (rule ac)
  next
    case (step y z)
    then show ?case using closed by blast
  qed
  then have "?E\<^sup>* `` {a} \<subseteq> set c" by auto
  then have "set c = ?E\<^sup>* `` {a}" using n(4) by auto
  then show ?thesis using n(1,3) by simp
qed

lemma make_group_fields:
  "author_ids (make_group ps n c) = c" "cg_size (make_group ps n c) = int (length c)"
  by (simp_all add: make_group_def Let_def)

text \<open>
  The loop over the keys of the graph keeps three facts: the visited set is the union of
  the components of the keys seen so far; the author sets of the groups are exactly
  those components that reach the minimum size; each group reaches the minimum size and
  lists its authors without repetition.
\<close>

lemma component_step_invariant:
  assumes s: "sym (graph_edges g)"
    and v: "V = \<Union> ((\<lambda>k. (graph_edges g)\<^sup>* `` {k}) ` K)"
    and gs: "(\<lambda>gr. set (author_ids gr)) ` set G =
        {C. \<exists>k\<in>K. C = (graph_edges g)\<^sup>* `` {k} \<and> det_min_group_size d \<le> int (card C)}"
    and sz: "\<forall>gr\<in>set G. det_min_group_size d \<le> cg_size gr
        \<and> cg_size gr = int (card (set (author_ids gr)))"
    and st: "component_step d g ps (V, G, n) a = (V', G', n')"
  shows "V' = \<Union> ((\<lambda>k. (graph_edges g)\<^sup>* `` {k}) ` insert a K)
    \<and> (\<lambda>gr. set (author_ids gr)) ` set G' =
        {C. \<exists>k\<in>insert a K. C = (graph_edges g)\<^sup>* `` {k}
             \<and> det_min_group_size d \<le> int (card C)}
    \<and> (\<forall>gr\<in>set G'. det_min_group_size d \<le> cg_size gr
        \<and> cg_size gr = int (card (set (author_ids gr))))"
proof (cases "a \<in> V")
  case True
  then have same: "V' = V" "G' = G"
    using st by (simp_all add: component_step_def)
  obtain k where k: "k \<in> K" and ak: "a \<in> (graph_edges g)\<^sup>* `` {k}"
    using True v by auto
  have eq: "(graph_edges g)\<^sup>* `` {a} = (graph_edges g)\<^sup>* `` {k}"
    using s ak by (rule sym_component_eq)
  have "\<Union> ((\<lambda>k. (graph_edges g)\<^sup>* `` {k}) ` insert a K) = V"
    using v k eq by auto
  moreover have "{C. \<exists>k\<in>insert a K. C = (graph_edges g)\<^sup>* `` {k}
         \<and> det_min_group_size d \<le> int (card C)}
      = {C. \<exists>k\<in>K. C = (graph_edges g)\<^sup>* `` {k} \<and> det_min_group_size d \<le> int (card C)}"
    using k eq by auto
  ultimately show ?thesis unfolding same using gs sz by (intro conjI) (simp, simp, blast)
next
  case False
  obtain V1 c where b: "bfs g [a] V [] = (V1, c)" by (cases "bfs g [a] V []") auto
  have c: "distinct c" "set c = (graph_edges g)\<^sup>* `` {a}"
    "V1 = V \<union> (graph_edges g)\<^sup>* `` {a}"
    using bfs_component [OF s v False b] by auto
  have card: "int (length c) = int (card ((graph_edges g)\<^sup>* `` {a}))"
    using c(1,2) by (metis distinct_card)
  have vu: "V \<union> (graph_edges g)\<^sup>* `` {a}
      = \<Union> ((\<lambda>k. (graph_edges g)\<^sup>* `` {k}) ` insert a K)"
    using v by auto
  show ?thesis
  proof (cases "det_min_group_size d \<le> int (length c)")
    case big: True
    then have r: "V' = V1" "G' = G @ [make_group ps n c]"
      using st False b by (simp_all add: component_step_def)
    have "(\<lambda>gr. set (author_ids gr)) ` set G' =
        insert ((graph_edges g)\<^sup>* `` {a}) ((\<lambda>gr. set (author_ids gr)) ` set G)"
      using r(2) c(2) by (simp add: make_group_fields)
    also have "\<dots> = {C. \<exists>k\<in>insert a K. C = (graph_edges g)\<^sup>* `` {k}
         \<and> det_min_group_size d \<le> int (card C)}"
      unfolding gs using big card by auto
    finally have i: "(\<lambda>gr. set (author_ids gr)) ` set G' =
        {C. \<exists>k\<in>insert a K. C = (graph_edges g)\<^sup>* `` {k}
             \<and> det_min_group_size d \<le> int (card C)}" .
    have z: "\<forall>gr\<in>set G'. det_min_group_size d \<le> cg_size gr
        \<and> cg_size gr = int (card (set (author_ids gr)))"
      using sz r(2) big card c(2) by (auto simp: make_group_fields)
    have "V' = \<Union> ((\<lambda>k. (graph_edges g)\<^sup>* `` {k}) ` insert a K)"
      using r(1) c(3) vu by simp
    then show ?thesis using i z by blast
  next
    case small: False
    then have r: "V' = V1" "G' = G"
      using st False b by (simp_all add: component_step_def)
    have "{C. \<exists>k\<in>insert a K. C = (graph_edges g)\<^sup>* `` {k}
         \<and> det_min_group_size d \<le> int (card C)}
      = {C. \<exists>k\<in>K. C = (graph_edges g)\<^sup>* `` {k} \<and> det_min_group_size d \<le> int (card C)}"
      using small card by auto
    moreover have "V' = \<Union> ((\<lambda>k. (graph_edges g)\<^sup>* `` {k}) ` insert a K)"
      using r(1) c(3) vu by simp
    ultimately show ?thesis using gs sz unfolding r(2) by (intro conjI) (simp, simp, blast)
  qed
qed

lemma component_loop_invariant:
  assumes s: "sym (graph_edges g)"
    and v: "V = \<Union> ((\<lambda>k. (graph_edges g)\<^sup>* `` {k}) ` K)"
    and gs: "(\<lambda>gr. set (author_ids gr)) ` set G =
        {C. \<exists>k\<in>K. C = (graph_edges g)\<^sup>* `` {k} \<and> det_min_group_size d \<le> int (card C)}"
    and sz: "\<forall>gr\<in>set G. det_min_group_size d \<le> cg_size gr
        \<and> cg_size gr = int (card (set (author_ids gr)))"
    and st: "foldl (component_step d g ps) (V, G, n) ks = (V', G', n')"
  shows "(\<lambda>gr. set (author_ids gr)) ` set G' =
        {C. \<exists>k\<in>K \<union> set ks. C = (graph_edges g)\<^sup>* `` {k}
             \<and> det_min_group_size d \<le> int (card C)}
    \<and> (\<forall>gr\<in>set G'. det_min_group_size d \<le> cg_size gr
        \<and> cg_size gr = int (card (set (author_ids gr))))"
  using v gs sz st
proof (induction ks arbitrary: V G n K)
  case Nil
  then have "G' = G" by simp
  then show ?case using Nil.prems(2,3) by (intro conjI) (simp, blast)
next
  case (Cons a ks)
  obtain V1 G1 n1 where one: "component_step d g ps (V, G, n) a = (V1, G1, n1)"
    by (cases "component_step d g ps (V, G, n) a") auto
  have inv: "V1 = \<Union> ((\<lambda>k. (graph_edges g)\<^sup>* `` {k}) ` insert a K)"
    "(\<lambda>gr. set (author_ids gr)) ` set G1 =
        {C. \<exists>k\<in>insert a K. C = (graph_edges g)\<^sup>* `` {k}
             \<and> det_min_group_size d \<le> int (card C)}"
    "\<forall>gr\<in>set G1. det_min_group_size d \<le> cg_size gr
        \<and> cg_size gr = int (card (set (author_ids gr)))"
    using component_step_invariant [OF s Cons.prems(1,2,3) one] by auto
  have rest: "foldl (component_step d g ps) (V1, G1, n1) ks = (V', G', n')"
    using Cons.prems(4) one by simp
  have u: "insert a K \<union> set ks = K \<union> set (a # ks)" by auto
  show ?case
    using Cons.IH [OF inv rest] unfolding u .
qed

lemma build_groups_components:
  "(\<lambda>gr. set (author_ids gr)) ` set (build_groups d pairs) =
     {C. \<exists>a\<in>coordinated_authors pairs. C = component_of pairs a
          \<and> det_min_group_size d \<le> int (card C)}
   \<and> (\<forall>gr\<in>set (build_groups d pairs). det_min_group_size d \<le> cg_size gr
        \<and> cg_size gr = int (card (set (author_ids gr))))"
proof (cases "pairs = []")
  case True
  then show ?thesis by (simp add: build_groups_def coordinated_authors_def)
next
  case False
  obtain g ps where bg: "build_graph pairs = (g, ps)" by (cases "build_graph pairs") auto
  obtain V' G' n' where f: "foldl (component_step d g ps) ({}, [], 0) (map fst g) = (V', G', n')"
    by (cases "foldl (component_step d g ps) ({}, [], 0) (map fst g)") auto
  have e: "graph_edges g = coordination_edges pairs"
    using build_graph_edges [of pairs] bg by simp
  have k: "set (map fst g) = coordinated_authors pairs"
    using build_graph_keys [of pairs] bg by simp
  have s: "sym (graph_edges g)" unfolding e by (rule sym_coordination_edges)
  have v0: "({} :: string set) = \<Union> ((\<lambda>k. (graph_edges g)\<^sup>* `` {k}) ` {})" by simp
  have g0: "(\<lambda>gr. set (author_ids gr)) ` set ([] :: coordinated_group list) =
      {C. \<exists>k\<in>{}. C = (graph_edges g)\<^sup>* `` {k} \<and> det_min_group_size d \<le> int (card C)}"
    by simp
  have s0: "\<forall>gr\<in>set ([] :: coordinated_group list). det_min_group_size d \<le> cg_size gr
      \<and> cg_size gr = int (card (set (author_ids gr)))"
    by simp
  have inv: "(\<lambda>gr. set (author_ids gr)) ` set G' =
        {C. \<exists>k\<in>{} \<union> set (map fst g). C = (graph_edges g)\<^sup>* `` {k}
             \<and> det_min_group_size d \<le> int (card C)}
    \<and> (\<forall>gr\<in>set G'. det_min_group_size d \<le> cg_size gr
        \<and> cg_size gr = int (card (set (author_ids gr))))"
    using component_loop_invariant [OF s v0 g0 s0 f] .
  have b: "set (build_groups d pairs) = set G'"
    using False by (simp add: build_groups_def bg f)
  show ?thesis
    unfolding b using inv unfolding e k component_of_def by (intro conjI) (simp, blast)
qed

text \<open>
  C3. The component of an author of some pair is reported as a group if and only if it
  has at least \<open>min_group_size\<close> members. Every reported group is the component of some
  author, lists each member once and has at least \<open>min_group_size\<close> members.
\<close>

theorem component_reported_iff_min_size:
  assumes "a \<in> coordinated_authors pairs"
  shows "((\<exists>gr\<in>set (build_groups d pairs). set (author_ids gr) = component_of pairs a)
           \<longleftrightarrow> det_min_group_size d \<le> int (card (component_of pairs a)))
    \<and> (\<forall>gr\<in>set (build_groups d pairs).
          det_min_group_size d \<le> cg_size gr
          \<and> cg_size gr = int (card (set (author_ids gr)))
          \<and> (\<exists>b\<in>coordinated_authors pairs. set (author_ids gr) = component_of pairs b))"
proof -
  have img: "(\<lambda>gr. set (author_ids gr)) ` set (build_groups d pairs) =
      {C. \<exists>b\<in>coordinated_authors pairs. C = component_of pairs b
           \<and> det_min_group_size d \<le> int (card C)}"
    and sz: "\<forall>gr\<in>set (build_groups d pairs). det_min_group_size d \<le> cg_size gr
        \<and> cg_size gr = int (card (set (author_ids gr)))"
    using build_groups_components [of d pairs] by blast+
  have "(\<exists>gr\<in>set (build_groups d pairs). set (author_ids gr) = component_of pairs a)
      \<longleftrightarrow> component_of pairs a \<in> (\<lambda>gr. set (author_ids gr)) ` set (build_groups d pairs)"
    by auto
  also have "\<dots> \<longleftrightarrow> det_min_group_size d \<le> int (card (component_of pairs a))"
    unfolding img using assms by auto
  finally have first:
    "(\<exists>gr\<in>set (build_groups d pairs). set (author_ids gr) = component_of pairs a)
      \<longleftrightarrow> det_min_group_size d \<le> int (card (component_of pairs a))" .
  have second: "\<exists>b\<in>coordinated_authors pairs. set (author_ids gr) = component_of pairs b"
    if "gr \<in> set (build_groups d pairs)" for gr
  proof -
    have "set (author_ids gr) \<in> (\<lambda>gr. set (author_ids gr)) ` set (build_groups d pairs)"
      using that by blast
    then show ?thesis unfolding img by blast
  qed
  show ?thesis using first second sz by blast
qed

lemma component_of_subset: "component_of pairs a \<subseteq> insert a (coordinated_authors pairs)"
proof
  fix b assume "b \<in> component_of pairs a"
  then have "(a, b) \<in> (coordination_edges pairs)\<^sup>*" by (simp add: component_of_def)
  then show "b \<in> insert a (coordinated_authors pairs)"
  proof (induction rule: rtrancl_induct)
    case base
    then show ?case by simp
  next
    case (step y z)
    then show ?case by (auto simp: coordination_edges_def coordinated_authors_def)
  qed
qed

lemma two_narratives_component:
  "component_of pairs_two_narratives ''alice'' = {''alice'', ''bob'', ''carol''}"
proof -
  have au: "coordinated_authors pairs_two_narratives = {''alice'', ''bob'', ''carol''}"
    by (auto simp: coordinated_authors_def pairs_two_narratives_def sample_pair_def)
  have ab: "(''alice'', ''bob'') \<in> coordination_edges pairs_two_narratives"
    and bc: "(''bob'', ''carol'') \<in> coordination_edges pairs_two_narratives"
    by (simp_all add: coordination_edges_def pairs_two_narratives_def sample_pair_def)
  have "''alice'' \<in> component_of pairs_two_narratives ''alice''"
    by (simp add: component_of_def)
  moreover have "''bob'' \<in> component_of pairs_two_narratives ''alice''"
    using ab by (auto simp: component_of_def)
  moreover have "''carol'' \<in> component_of pairs_two_narratives ''alice''"
    using ab bc by (auto simp: component_of_def intro: rtrancl_trans)
  ultimately show ?thesis
    using component_of_subset [of pairs_two_narratives "''alice''"] au by auto
qed

lemma single_pair_component:
  "component_of [sample_pair ''alice'' ''bob'' 0.9 ''n1''] ''alice'' = {''alice'', ''bob''}"
proof -
  have au: "coordinated_authors [sample_pair ''alice'' ''bob'' 0.9 ''n1''] = {''alice'', ''bob''}"
    by (auto simp: coordinated_authors_def sample_pair_def)
  have ab: "(''alice'', ''bob'') \<in> coordination_edges [sample_pair ''alice'' ''bob'' 0.9 ''n1'']"
    by (simp add: coordination_edges_def sample_pair_def)
  have "''alice'' \<in> component_of [sample_pair ''alice'' ''bob'' 0.9 ''n1''] ''alice''"
    by (simp add: component_of_def)
  moreover have "''bob'' \<in> component_of [sample_pair ''alice'' ''bob'' 0.9 ''n1''] ''alice''"
    using ab by (auto simp: component_of_def)
  ultimately show ?thesis
    using component_of_subset [of "[sample_pair ''alice'' ''bob'' 0.9 ''n1'']" "''alice''"] au
    by auto
qed

theorem component_reported_iff_min_size_witness:
  "''alice'' \<in> coordinated_authors pairs_two_narratives
   \<and> card (component_of pairs_two_narratives ''alice'') = 3
   \<and> (\<exists>gr\<in>set (build_groups default_detector pairs_two_narratives).
         set (author_ids gr) = component_of pairs_two_narratives ''alice'')
   \<and> ''alice'' \<in> coordinated_authors [sample_pair ''alice'' ''bob'' 0.9 ''n1'']
   \<and> card (component_of [sample_pair ''alice'' ''bob'' 0.9 ''n1''] ''alice'') = 2
   \<and> \<not> (\<exists>gr\<in>set (build_groups default_detector [sample_pair ''alice'' ''bob'' 0.9 ''n1'']).
           set (author_ids gr) = component_of [sample_pair ''alice'' ''bob'' 0.9 ''n1''] ''alice'')"
proof -
  have a3: "''alice'' \<in> coordinated_authors pairs_two_narratives"
    by (simp add: coordinated_authors_def pairs_two_narratives_def sample_pair_def)
  have a2: "''alice'' \<in> coordinated_authors [sample_pair ''alice'' ''bob'' 0.9 ''n1'']"
    by (simp add: coordinated_authors_def sample_pair_def)
  have c3: "card (component_of pairs_two_narratives ''alice'') = 3"
    by (simp add: two_narratives_component)
  have c2: "card (component_of [sample_pair ''alice'' ''bob'' 0.9 ''n1''] ''alice'') = 2"
    by (simp add: single_pair_component)
  have m: "det_min_group_size default_detector = 3"
    by (rule default_detector_fields)
  show ?thesis
    using component_reported_iff_min_size [OF a3, of default_detector]
      component_reported_iff_min_size [OF a2, of default_detector] a3 a2 c3 c2 m
    by simp
qed

end
